theory Spec2Isabelle
  imports Complex_Main
begin

section \<open>The audio player hook: data model\<close>

text \<open>
  The development embeds the hook \<open>useAudioPlayer\<close>. A track is read by the hook
  through two fields only, \<open>id\<close> and \<open>preview_url\<close>; the field \<open>id\<close> is called
  \<open>track_id\<close> here, since \<open>id\<close> is the identity function of HOL. A missing
  \<open>preview_url\<close> (null or undefined) is \<open>None\<close>.
\<close>

record ITrack =
  track_id :: string
  preview_url :: "string option"

datatype RepeatMode = RepeatOff | RepeatOne | RepeatAll

text \<open>
  The interface \<open>AudioPlayerState\<close>. A number that is used as an index is an \<open>int\<close>.
  \<open>progress\<close> and \<open>volume\<close> are \<open>real\<close>: the operations store into them what
  they are given, 0, or the whole numbers that the synthetic clock counts.
\<close>

record AudioPlayerState =
  currentTrack :: "ITrack option"
  currentIndex :: int
  queue :: "ITrack list"
  isPlaying :: bool
  progress :: real
  volume :: real
  isShuffled :: bool
  repeatMode :: RepeatMode
  isMinimized :: bool
  isQueueOpen :: bool

definition initialState :: AudioPlayerState where
  "initialState =
     \<lparr>currentTrack = None, currentIndex = - 1, queue = [], isPlaying = False,
      progress = 0, volume = 80, isShuffled = False, repeatMode = RepeatOff,
      isMinimized = False, isQueueOpen = False\<rparr>"

text \<open>
  What the hook does to the audio element is kept as the list of the commands it issued,
  oldest first.
\<close>

datatype AudioCommand =
    AudioPause
  | AudioPlay
  | AudioSrc string
  | AudioVolume real
  | AudioCurrentTime real

text \<open>
  The hook instance: the React state, the audio element behind \<open>audioRef\<close>, the ref
  \<open>simulationInterval\<close> (\<open>None\<close> is null, \<open>Some h\<close> a timer handle), and the
  intervals that \<open>setInterval\<close> has created and \<open>clearInterval\<close> has not yet
  removed, each with the counter \<open>simulatedProgress\<close> of its closure.
\<close>

record Player =
  state :: AudioPlayerState
  audioRef :: "AudioCommand list"
  simulationInterval :: "nat option"
  intervals :: "nat \<rightharpoonup> nat"
  nextHandle :: nat

definition initialPlayer :: Player where
  "initialPlayer =
     \<lparr>state = initialState, audioRef = [], simulationInterval = None,
      intervals = Map.empty, nextHandle = 1\<rparr>"

text \<open>
  Modelled from the spec: \<open>enhanceTrackWithPreview\<close> of the enrichment service
  \<open>MCPAudioService\<close>, which the hook imports and whose code is missing. The spec has it
  resolve a playable-resource reference for a track that lacks one, on a copy of the track,
  and has it fail sometimes: \<open>Rejected\<close> is the failure, \<open>Resolved u\<close> returns the
  track with \<open>preview_url\<close> set to \<open>u\<close>.
\<close>

datatype Resolution = Rejected | Resolved "string option"

text \<open>
  What an operation learns from outside while it runs: the outcome of the enrichment,
  whether the promise of \<open>audio.play()\<close> is fulfilled, and the value of
  \<open>Math.random()\<close>, a number in \<open>[0, 1)\<close>.
\<close>

record Env =
  resolution :: Resolution
  playFulfilled :: bool
  random :: real

section \<open>Array primitives of the host language\<close>

text \<open>The relative start index of \<open>slice\<close> and \<open>splice\<close>: a negative one counts from the end.\<close>

definition relativeStart :: "int \<Rightarrow> nat \<Rightarrow> nat" where
  "relativeStart i n = (if i < 0 then nat (max (int n + i) 0) else min (nat i) n)"

definition slice :: "int \<Rightarrow> 'a list \<Rightarrow> 'a list" where
  "slice start xs = drop (relativeStart start (length xs)) xs"

text \<open>\<open>splice\<close> (here \<open>splice_js\<close>) returns the removed elements and the array as it is afterwards.\<close>

definition splice_js :: "int \<Rightarrow> nat \<Rightarrow> 'a list \<Rightarrow> 'a list \<Rightarrow> 'a list \<times> 'a list" where
  "splice_js start deleteCount items xs =
     (let k = relativeStart start (length xs);
          d = min deleteCount (length xs - k)
      in (take d (drop k xs), take k xs @ items @ drop (k + d) xs))"

fun findIndex :: "('a \<Rightarrow> bool) \<Rightarrow> 'a list \<Rightarrow> int" where
  "findIndex P [] = - 1"
| "findIndex P (x # xs) =
     (if P x then 0 else (let r = findIndex P xs in if r = - 1 then - 1 else r + 1))"

text \<open>Reading an array at an index: out of range the result is undefined, here \<open>None\<close>.\<close>

definition elementAt :: "'a list \<Rightarrow> int \<Rightarrow> 'a option" where
  "elementAt xs i = (if 0 \<le> i \<and> i < int (length xs) then Some (xs ! nat i) else None)"

text \<open>A string is truthy when it is there and not empty.\<close>

definition truthy :: "string option \<Rightarrow> bool" where
  "truthy u = (case u of None \<Rightarrow> False | Some x \<Rightarrow> x \<noteq> [])"

section \<open>The operations\<close>

definition setState :: "(AudioPlayerState \<Rightarrow> AudioPlayerState) \<Rightarrow> Player \<Rightarrow> Player" where
  "setState f w = w\<lparr>state := f (state w)\<rparr>"

definition audioDo :: "AudioCommand list \<Rightarrow> Player \<Rightarrow> Player" where
  "audioDo cs w = w\<lparr>audioRef := audioRef w @ cs\<rparr>"

definition clearInterval :: "nat \<Rightarrow> Player \<Rightarrow> Player" where
  "clearInterval h w = w\<lparr>intervals := (intervals w)(h := None)\<rparr>"

text \<open>
  The recurring block
  \<^verbatim>\<open>if (simulationInterval.current) { clearInterval(...); simulationInterval.current = null; }\<close>
\<close>

definition stopSimulation :: "Player \<Rightarrow> Player" where
  "stopSimulation w =
     (case simulationInterval w of
        None \<Rightarrow> w
      | Some h \<Rightarrow> (clearInterval h w)\<lparr>simulationInterval := None\<rparr>)"

text \<open>
  \<open>startSimulation\<close> creates an interval whose closure owns a counter starting at 0 and
  stores its handle in the ref, whatever the ref held before.
\<close>

definition startSimulation :: "Player \<Rightarrow> Player" where
  "startSimulation w =
     w\<lparr>simulationInterval := Some (nextHandle w),
       intervals := (intervals w)(nextHandle w \<mapsto> 0),
       nextHandle := Suc (nextHandle w)\<rparr>"

text \<open>One firing of the interval with handle \<open>h\<close>; a cleared interval does not fire.\<close>

definition tick :: "nat \<Rightarrow> Player \<Rightarrow> Player" where
  "tick h w =
     (case intervals w h of
        None \<Rightarrow> w
      | Some c \<Rightarrow>
          (let simulatedProgress = c + 1;
               w1 = setState (\<lambda>prev. prev\<lparr>progress := real simulatedProgress\<rparr>)
                      (w\<lparr>intervals := (intervals w)(h \<mapsto> simulatedProgress)\<rparr>)
           in if simulatedProgress \<ge> 100
              then setState (\<lambda>prev. prev\<lparr>isPlaying := False, progress := 0\<rparr>)
                     (stopSimulation w1)
              else w1))"

text \<open>
  In the operations below \<open>s\<close> is the state of the render whose closures run: what the
  source reads as \<open>state.x\<close>, as opposed to \<open>prev.x\<close> inside an update. An operation
  runs to its end, awaited continuations included, before the next one starts, and it is
  called on the state of the latest render. The two effects of the hook belong to the
  render cycle and are not operations: the one that creates the audio element and attaches
  the listeners \<open>handleEnded\<close> and \<open>handleError\<close> (the listeners are modelled, the
  creation is not), and the one that, while \<open>isPlaying\<close> holds, samples the position of
  the audio element into \<open>progress\<close> and clears the timers when \<open>isPlaying\<close> changes.
  A track argument is a track: the guards \<^verbatim>\<open>if (!track) return\<close> have no case here.
\<close>

definition loadTrack :: "AudioPlayerState \<Rightarrow> ITrack \<Rightarrow> bool \<Rightarrow> Env \<Rightarrow> Player \<Rightarrow> Player" where
  "loadTrack s track shouldPlay env w =
     (let w1 = stopSimulation w;
          w2 = setState (\<lambda>prev. prev\<lparr>currentTrack := Some track, isPlaying := shouldPlay,
                                     progress := 0\<rparr>) w1;
          resolved = (if truthy (preview_url track) then Some track
                      else (case resolution env of
                              Rejected \<Rightarrow> None
                            | Resolved u \<Rightarrow> Some (track\<lparr>preview_url := u\<rparr>)))
      in case resolved of
           None \<Rightarrow> (if shouldPlay then startSimulation w2 else w2)
         | Some enhancedTrack \<Rightarrow>
             (let w3 = setState (\<lambda>prev. prev\<lparr>currentTrack := Some enhancedTrack\<rparr>) w2
              in if truthy (preview_url enhancedTrack) \<and> shouldPlay
                 then (let w4 = audioDo [AudioSrc (the (preview_url enhancedTrack)),
                                         AudioVolume (volume s / 100), AudioPlay] w3
                       in if playFulfilled env then w4 else startSimulation w4)
                 else if shouldPlay then startSimulation w3 else w3))"

definition goToIndex :: "AudioPlayerState \<Rightarrow> int option \<Rightarrow> bool \<Rightarrow> Env \<Rightarrow> Player \<Rightarrow> Player" where
  "goToIndex s nextIndex autoPlay env w =
     (if nextIndex = None \<or> the nextIndex < 0 \<or> the nextIndex \<ge> int (length (queue s))
      then setState (\<lambda>prev. prev\<lparr>isPlaying := False, progress := 0\<rparr>) (audioDo [AudioPause] w)
      else (let nextTrack = queue s ! nat (the nextIndex);
                w1 = setState (\<lambda>prev. prev\<lparr>currentIndex := the nextIndex,
                                           currentTrack := Some nextTrack,
                                           isPlaying := autoPlay, progress := 0\<rparr>) w
            in if autoPlay then loadTrack s nextTrack True env w1 else w1))"

definition skipNext :: "Env \<Rightarrow> Player \<Rightarrow> Player" where
  "skipNext env w =
     (let s = state w in
      if length (queue s) = 0 then w
      else if repeatMode s = RepeatOne \<and> currentIndex s \<ge> 0
      then goToIndex s (Some (currentIndex s)) True env w
      else (let drawn = (if isShuffled s
                         then \<lfloor>random env * real (length (queue s))\<rfloor>
                         else currentIndex s + 1);
                nextIndex = (if isShuffled s \<and> length (queue s) > 1 \<and> drawn = currentIndex s
                             then (drawn + 1) mod int (length (queue s))
                             else drawn)
            in if nextIndex \<ge> int (length (queue s))
               then (if repeatMode s = RepeatAll
                     then goToIndex s (Some 0) True env w
                     else goToIndex s None True env w)
               else goToIndex s (Some nextIndex) True env w))"

definition skipPrevious :: "Env \<Rightarrow> Player \<Rightarrow> Player" where
  "skipPrevious env w =
     (let s = state w in
      if length (queue s) = 0 then w
      else (let prevIndex = (if isShuffled s
                             then \<lfloor>random env * real (length (queue s))\<rfloor>
                             else currentIndex s - 1)
            in if prevIndex < 0
               then (if repeatMode s = RepeatAll
                     then goToIndex s (Some (int (length (queue s)) - 1)) True env w
                     else goToIndex s None True env w)
               else goToIndex s (Some prevIndex) True env w))"

text \<open>The two listeners that the hook attaches to the audio element.\<close>

definition handleEnded :: "Env \<Rightarrow> Player \<Rightarrow> Player" where
  "handleEnded env w = skipNext env w"

definition handleError :: "Player \<Rightarrow> Player" where
  "handleError = setState (\<lambda>prev. prev\<lparr>isPlaying := False\<rparr>)"

definition openQueuePanel :: "Player \<Rightarrow> Player" where
  "openQueuePanel = setState (\<lambda>prev. prev\<lparr>isQueueOpen := True\<rparr>)"

definition closeQueuePanel :: "Player \<Rightarrow> Player" where
  "closeQueuePanel = setState (\<lambda>prev. prev\<lparr>isQueueOpen := False\<rparr>)"

definition toggleQueuePanel :: "Player \<Rightarrow> Player" where
  "toggleQueuePanel = setState (\<lambda>prev. prev\<lparr>isQueueOpen := \<not> isQueueOpen prev\<rparr>)"

definition togglePlay :: "Player \<Rightarrow> Player" where
  "togglePlay w =
     (let s = state w in
      case currentTrack s of
        None \<Rightarrow> w
      | Some t \<Rightarrow>
          setState (\<lambda>prev. prev\<lparr>isPlaying := \<not> isPlaying prev\<rparr>)
            (if isPlaying s then stopSimulation (audioDo [AudioPause] w)
             else if truthy (preview_url t) then audioDo [AudioPlay] w
             else startSimulation w))"

definition playTrack :: "ITrack \<Rightarrow> Env \<Rightarrow> Player \<Rightarrow> Player" where
  "playTrack track env w =
     (let s = state w in
      if map_option track_id (currentTrack s) = Some (track_id track) then togglePlay w
      else loadTrack s track True env
             (setState (\<lambda>prev. prev\<lparr>queue := [track], currentIndex := 0,
                                    currentTrack := Some track, isPlaying := True,
                                    progress := 0\<rparr>) w))"

definition enqueue :: "ITrack \<Rightarrow> Player \<Rightarrow> Player" where
  "enqueue track =
     setState (\<lambda>prev.
       (let nextQueue = queue prev @ [track];
            nextIndex = (if currentIndex prev = - 1 then 0 else currentIndex prev)
        in prev\<lparr>queue := nextQueue, currentIndex := nextIndex,
                currentTrack := (case currentTrack prev of
                                   None \<Rightarrow> Some track
                                 | Some t \<Rightarrow> Some t)\<rparr>))"

definition enqueueNext :: "ITrack \<Rightarrow> Player \<Rightarrow> Player" where
  "enqueueNext track =
     setState (\<lambda>prev.
       if currentIndex prev = - 1
       then prev\<lparr>queue := [track], currentIndex := 0, currentTrack := Some track\<rparr>
       else prev\<lparr>queue := snd (splice_js (currentIndex prev + 1) 0 [track] (queue prev))\<rparr>)"

text \<open>
  \<open>seek\<close> reads the duration of the audio element, which the caller of the model
  supplies: \<open>None\<close> when the element reports no number (nothing loaded), \<open>Some d\<close>
  otherwise. A duration of 0 is falsy like a missing one.
\<close>

definition seek :: "real \<Rightarrow> real option \<Rightarrow> Player \<Rightarrow> Player" where
  "seek position duration w =
     (let w1 = setState (\<lambda>prev. prev\<lparr>progress := position\<rparr>) w
      in case duration of
           None \<Rightarrow> w1
         | Some d \<Rightarrow>
             if d = 0 then w1
             else audioDo [AudioCurrentTime ((position / 100) * d)] w1)"

definition setVolume :: "real \<Rightarrow> Player \<Rightarrow> Player" where
  "setVolume v w = audioDo [AudioVolume (v / 100)] (setState (\<lambda>prev. prev\<lparr>volume := v\<rparr>) w)"

definition toggleShuffle :: "Player \<Rightarrow> Player" where
  "toggleShuffle = setState (\<lambda>prev. prev\<lparr>isShuffled := \<not> isShuffled prev\<rparr>)"

definition toggleRepeat :: "Player \<Rightarrow> Player" where
  "toggleRepeat =
     setState (\<lambda>prev.
       (let modes = [RepeatOff, RepeatOne, RepeatAll];
            modeIndex = findIndex (\<lambda>m. m = repeatMode prev) modes;
            nextMode = modes ! nat ((modeIndex + 1) mod int (length modes))
        in prev\<lparr>repeatMode := nextMode\<rparr>))"

definition toggleFavorite :: "Player \<Rightarrow> Player" where
  "toggleFavorite w = w"

definition toggleMinimize :: "Player \<Rightarrow> Player" where
  "toggleMinimize = setState (\<lambda>prev. prev\<lparr>isMinimized := \<not> isMinimized prev\<rparr>)"

text \<open>
  \<open>clearQueue\<close> clears the interval behind \<open>simulationInterval\<close> and leaves the ref as
  it is. The interval behind \<open>progressInterval\<close>, which samples the position of the audio
  element, is created by an effect of the render cycle and is not part of this model.
\<close>

definition clearQueue :: "Player \<Rightarrow> Player" where
  "clearQueue w =
     (let w1 = audioDo [AudioPause, AudioSrc []] w;
          w2 = (case simulationInterval w1 of None \<Rightarrow> w1 | Some h \<Rightarrow> clearInterval h w1)
      in setState (\<lambda>prev. prev\<lparr>queue := [], currentIndex := - 1, currentTrack := None,
                               isPlaying := False, progress := 0\<rparr>) w2)"

definition removeFromQueue :: "string \<Rightarrow> Env \<Rightarrow> Player \<Rightarrow> Player" where
  "removeFromQueue trackId env w =
     (let s = state w;
          currentQueue = queue s;
          index = findIndex (\<lambda>t. track_id t = trackId) currentQueue
      in if index = - 1 then w
         else
           (let nextQueue = filter (\<lambda>t. track_id t \<noteq> trackId) currentQueue;
                (nextIndex, nextTrack) =
                  (if index = currentIndex s
                   then (if length nextQueue = 0 then (- 1, None)
                         else if currentIndex s \<ge> int (length nextQueue)
                         then (int (length nextQueue) - 1,
                               elementAt nextQueue (int (length nextQueue) - 1))
                         else (currentIndex s, elementAt nextQueue (currentIndex s)))
                   else if index < currentIndex s
                   then (max (currentIndex s - 1) 0, elementAt nextQueue (max (currentIndex s - 1) 0))
                   else (currentIndex s, currentTrack s));
                w1 = setState (\<lambda>prev. prev\<lparr>queue := nextQueue, currentIndex := nextIndex,
                                           currentTrack := nextTrack,
                                           isPlaying := (if nextTrack \<noteq> None
                                                         then isPlaying prev else False),
                                           progress := (if nextTrack \<noteq> None
                                                        then progress prev else 0)\<rparr>) w
            in case nextTrack of
                 Some t \<Rightarrow> loadTrack s t (isPlaying s) env w1
               | None \<Rightarrow> audioDo [AudioPause] w1))"

definition reorderQueue :: "int \<Rightarrow> int \<Rightarrow> Player \<Rightarrow> Player" where
  "reorderQueue from to =
     setState (\<lambda>prev.
       if from = to \<or> from < 0 \<or> to < 0 \<or> from \<ge> int (length (queue prev))
          \<or> to \<ge> int (length (queue prev))
       then prev
       else
         (let (moved, updated1) = splice_js from 1 [] (queue prev);
              updated = snd (splice_js to 0 moved updated1);
              nextIndex =
                (if from = currentIndex prev then to
                 else if from < currentIndex prev \<and> to \<ge> currentIndex prev
                 then currentIndex prev - 1
                 else if from > currentIndex prev \<and> to \<le> currentIndex prev
                 then currentIndex prev + 1
                 else currentIndex prev)
          in prev\<lparr>queue := updated, currentIndex := nextIndex\<rparr>))"

definition playFromQueue :: "int \<Rightarrow> Env \<Rightarrow> Player \<Rightarrow> Player" where
  "playFromQueue index env w = goToIndex (state w) (Some index) True env w"

definition closePlayer :: "Player \<Rightarrow> Player" where
  "closePlayer w = setState (\<lambda>prev. initialState) (audioDo [AudioPause, AudioSrc []] w)"

definition setQueue :: "ITrack list \<Rightarrow> Player \<Rightarrow> Player" where
  "setQueue q = setState (\<lambda>prev. prev\<lparr>queue := q\<rparr>)"

definition setCurrentIndex :: "int \<Rightarrow> Player \<Rightarrow> Player" where
  "setCurrentIndex idx = setState (\<lambda>prev. prev\<lparr>currentIndex := idx\<rparr>)"

definition upNext :: "AudioPlayerState \<Rightarrow> ITrack list" where
  "upNext s = slice (currentIndex s + 1) (queue s)"

section \<open>Sequences of operations\<close>

text \<open>
  Everything the hook returns to its callers, the firing of a synthetic interval and the
  two events of the audio element that the hook listens to. The operations that consult
  the outside carry what they learn there.
\<close>

datatype Operation =
    PlayTrack ITrack Env
  | Enqueue ITrack
  | EnqueueNext ITrack
  | TogglePlay
  | SkipNext Env
  | SkipPrevious Env
  | Seek real "real option"
  | SetVolume real
  | ToggleShuffle
  | ToggleRepeat
  | ToggleFavorite
  | ToggleMinimize
  | ClearQueue
  | RemoveFromQueue string Env
  | ReorderQueue int int
  | ClosePlayer
  | OpenQueuePanel
  | CloseQueuePanel
  | ToggleQueuePanel
  | PlayFromQueue int Env
  | SetQueue "ITrack list"
  | SetCurrentIndex int
  | Tick nat
  | Ended Env
  | Errored

fun exec :: "Operation \<Rightarrow> Player \<Rightarrow> Player" where
  "exec (PlayTrack track env) w = playTrack track env w"
| "exec (Enqueue track) w = enqueue track w"
| "exec (EnqueueNext track) w = enqueueNext track w"
| "exec TogglePlay w = togglePlay w"
| "exec (SkipNext env) w = skipNext env w"
| "exec (SkipPrevious env) w = skipPrevious env w"
| "exec (Seek position duration) w = seek position duration w"
| "exec (SetVolume v) w = setVolume v w"
| "exec ToggleShuffle w = toggleShuffle w"
| "exec ToggleRepeat w = toggleRepeat w"
| "exec ToggleFavorite w = toggleFavorite w"
| "exec ToggleMinimize w = toggleMinimize w"
| "exec ClearQueue w = clearQueue w"
| "exec (RemoveFromQueue trackId env) w = removeFromQueue trackId env w"
| "exec (ReorderQueue from to) w = reorderQueue from to w"
| "exec ClosePlayer w = closePlayer w"
| "exec OpenQueuePanel w = openQueuePanel w"
| "exec CloseQueuePanel w = closeQueuePanel w"
| "exec ToggleQueuePanel w = toggleQueuePanel w"
| "exec (PlayFromQueue index env) w = playFromQueue index env w"
| "exec (SetQueue q) w = setQueue q w"
| "exec (SetCurrentIndex idx) w = setCurrentIndex idx w"
| "exec (Tick h) w = tick h w"
| "exec (Ended env) w = handleEnded env w"
| "exec Errored w = handleError w"

text \<open>Running a list of operations from left to right.\<close>

fun run :: "Operation list \<Rightarrow> Player \<Rightarrow> Player" where
  "run [] w = w"
| "run (operation # rest) w = run rest (exec operation w)"

text \<open>\<open>seek\<close> is meant to be called with a percentage.\<close>

fun admissible :: "Operation \<Rightarrow> bool" where
  "admissible (Seek position duration) = (0 \<le> position \<and> position \<le> 100)"
| "admissible _ = True"

inductive reachable :: "Player \<Rightarrow> bool" where
  initial: "reachable initialPlayer"
| step: "reachable w \<Longrightarrow> admissible operation \<Longrightarrow> reachable (exec operation w)"

section \<open>Notions of the specification\<close>

text \<open>
  The elements of a list at the positions strictly after \<open>i\<close>, in their order: the
  specification's reading of "up next".
\<close>

definition suffixAfter :: "int \<Rightarrow> 'a list \<Rightarrow> 'a list" where
  "suffixAfter i xs = map (\<lambda>j. xs ! j) (filter (\<lambda>j. i < int j) [0..<length xs])"

text \<open>A list without its element at position \<open>k\<close>.\<close>

definition removeAt :: "nat \<Rightarrow> 'a list \<Rightarrow> 'a list" where
  "removeAt k xs = take k xs @ drop (Suc k) xs"

section \<open>The selection invariant\<close>

text \<open>The track that \<open>loadTrack\<close> leaves as the current one when it loads \<open>track\<close>.\<close>

definition published :: "Env \<Rightarrow> ITrack \<Rightarrow> ITrack" where
  "published env track =
     (if truthy (preview_url track) then track
      else (case resolution env of
              Rejected \<Rightarrow> track
            | Resolved u \<Rightarrow> track\<lparr>preview_url := u\<rparr>))"

text \<open>
  The invariant of the specification: the current index is \<open>-1\<close> exactly when there is
  no current track, and otherwise it is a position of the queue whose element has the id of
  the current track.
\<close>

definition selectionConsistent :: "AudioPlayerState \<Rightarrow> bool" where
  "selectionConsistent s \<longleftrightarrow>
     (currentIndex s = - 1 \<longleftrightarrow> currentTrack s = None) \<and>
     (currentIndex s \<noteq> - 1 \<longrightarrow>
        0 \<le> currentIndex s \<and> currentIndex s < int (length (queue s)) \<and>
        map_option track_id (currentTrack s) = Some (track_id (queue s ! nat (currentIndex s))))"

text \<open>The invariant that the operations preserve: with nothing selected the queue is empty.\<close>

definition wellSelected :: "AudioPlayerState \<Rightarrow> bool" where
  "wellSelected s \<longleftrightarrow> selectionConsistent s \<and> (currentIndex s = - 1 \<longrightarrow> queue s = [])"

text \<open>
  The operations without the two raw overrides \<open>setQueue\<close> and \<open>setCurrentIndex\<close>, and
  with \<open>removeFromQueue\<close> only for an id that at most one queue entry has.
\<close>

fun orderly :: "Operation \<Rightarrow> Player \<Rightarrow> bool" where
  "orderly (RemoveFromQueue trackId env) w =
     (length (filter (\<lambda>t. track_id t = trackId) (queue (state w))) \<le> 1)"
| "orderly (SetQueue q) w = False"
| "orderly (SetCurrentIndex idx) w = False"
| "orderly _ w = True"

inductive reachableOrderly :: "Player \<Rightarrow> bool" where
  orderly_start: "reachableOrderly initialPlayer"
| orderly_step: "reachableOrderly w \<Longrightarrow> orderly operation w \<Longrightarrow> reachableOrderly (exec operation w)"

section \<open>Scenarios\<close>

definition trackA :: ITrack where
  "trackA = \<lparr>track_id = ''a'', preview_url = Some ''u1''\<rparr>"

definition trackB :: ITrack where
  "trackB = \<lparr>track_id = ''b'', preview_url = Some ''u2''\<rparr>"

definition trackC :: ITrack where
  "trackC = \<lparr>track_id = ''c'', preview_url = None\<rparr>"

text \<open>A second queue entry for the song of \<open>trackA\<close>: the same id, another URL.\<close>

definition trackA2 :: ITrack where
  "trackA2 = \<lparr>track_id = ''a'', preview_url = Some ''u3''\<rparr>"

text \<open>An outside where enrichment fails and the audio element plays what it is given.\<close>

definition quiet :: Env where
  "quiet = \<lparr>resolution = Rejected, playFulfilled = True, random = 0\<rparr>"

definition twoTracks :: Player where
  "twoTracks = run [Enqueue trackA, Enqueue trackB, PlayFromQueue 1 quiet] initialPlayer"

definition loopAllLast :: Player where
  "loopAllLast =
     run [Enqueue trackA, Enqueue trackB, ToggleRepeat, ToggleRepeat, PlayFromQueue 1 quiet]
       initialPlayer"

definition loopAllFirst :: Player where
  "loopAllFirst = run [Enqueue trackA, Enqueue trackB, ToggleRepeat, ToggleRepeat] initialPlayer"

definition threeTracks :: Player where
  "threeTracks =
     run [Enqueue trackA, Enqueue trackB, Enqueue trackC, PlayFromQueue 1 quiet] initialPlayer"

definition repeatedSong :: Player where
  "repeatedSong =
     run [Enqueue trackA, Enqueue trackB, Enqueue trackA2, PlayFromQueue 1 quiet] initialPlayer"

definition repeatedSongLast :: Player where
  "repeatedSongLast =
     run [Enqueue trackA, Enqueue trackB, Enqueue trackA2, PlayFromQueue 2 quiet] initialPlayer"

definition playingSynthetic :: Player where
  "playingSynthetic = run [PlayTrack trackC quiet] initialPlayer"


text \<open>A state below the sentinel, as \<open>setCurrentIndex\<close> can produce it.\<close>

definition belowSentinel :: Player where
  "belowSentinel =
     run [Enqueue trackA, Enqueue trackB, Enqueue trackC, SetCurrentIndex (- 2)] initialPlayer"

lemmas operation_defs =
  setState_def audioDo_def clearInterval_def stopSimulation_def startSimulation_def
  loadTrack_def goToIndex_def skipNext_def skipPrevious_def togglePlay_def playTrack_def
  enqueue_def enqueueNext_def removeFromQueue_def reorderQueue_def playFromQueue_def
  clearQueue_def closePlayer_def seek_def setCurrentIndex_def truthy_def elementAt_def
  splice_js_def slice_def relativeStart_def

lemmas scenario_defs =
  initialPlayer_def initialState_def trackA_def trackB_def trackC_def trackA2_def quiet_def

section \<open>The states of the scenarios\<close>

lemma twoTracks_state:
  "state twoTracks =
     \<lparr>currentTrack = Some trackB, currentIndex = 1, queue = [trackA, trackB],
      isPlaying = True, progress = 0, volume = 80, isShuffled = False,
      repeatMode = RepeatOff, isMinimized = False, isQueueOpen = False\<rparr>"
  by (simp add: twoTracks_def operation_defs scenario_defs Let_def)

lemma toggleRepeat_state:
  "state (toggleRepeat w) =
     (state w)\<lparr>repeatMode := (case repeatMode (state w) of
                                   RepeatOff \<Rightarrow> RepeatOne
                                 | RepeatOne \<Rightarrow> RepeatAll
                                 | RepeatAll \<Rightarrow> RepeatOff)\<rparr>"
  by (cases "repeatMode (state w)") (simp_all add: toggleRepeat_def setState_def Let_def)

lemma loopAllLast_state:
  "state loopAllLast =
     \<lparr>currentTrack = Some trackB, currentIndex = 1, queue = [trackA, trackB],
      isPlaying = True, progress = 0, volume = 80, isShuffled = False,
      repeatMode = RepeatAll, isMinimized = False, isQueueOpen = False\<rparr>"
  by (simp add: loopAllLast_def toggleRepeat_def operation_defs scenario_defs Let_def)

lemma loopAllFirst_state:
  "state loopAllFirst =
     \<lparr>currentTrack = Some trackA, currentIndex = 0, queue = [trackA, trackB],
      isPlaying = False, progress = 0, volume = 80, isShuffled = False,
      repeatMode = RepeatAll, isMinimized = False, isQueueOpen = False\<rparr>"
  by (simp add: loopAllFirst_def toggleRepeat_def operation_defs scenario_defs Let_def)

lemma threeTracks_state:
  "state threeTracks =
     \<lparr>currentTrack = Some trackB, currentIndex = 1, queue = [trackA, trackB, trackC],
      isPlaying = True, progress = 0, volume = 80, isShuffled = False,
      repeatMode = RepeatOff, isMinimized = False, isQueueOpen = False\<rparr>"
  by (simp add: threeTracks_def operation_defs scenario_defs Let_def)

lemma repeatedSong_state:
  "state repeatedSong =
     \<lparr>currentTrack = Some trackB, currentIndex = 1, queue = [trackA, trackB, trackA2],
      isPlaying = True, progress = 0, volume = 80, isShuffled = False,
      repeatMode = RepeatOff, isMinimized = False, isQueueOpen = False\<rparr>"
  by (simp add: repeatedSong_def operation_defs scenario_defs Let_def)

lemma playingSynthetic_state:
  "state playingSynthetic =
     \<lparr>currentTrack = Some trackC, currentIndex = 0, queue = [trackC],
      isPlaying = True, progress = 0, volume = 80, isShuffled = False,
      repeatMode = RepeatOff, isMinimized = False, isQueueOpen = False\<rparr>"
  and playingSynthetic_clock:
  "simulationInterval playingSynthetic = Some 1" "intervals playingSynthetic 1 = Some 0"
  by (simp_all add: playingSynthetic_def operation_defs scenario_defs Let_def)


lemma belowSentinel_state:
  "state belowSentinel =
     \<lparr>currentTrack = Some trackA, currentIndex = - 2, queue = [trackA, trackB, trackC],
      isPlaying = False, progress = 0, volume = 80, isShuffled = False,
      repeatMode = RepeatOff, isMinimized = False, isQueueOpen = False\<rparr>"
  by (simp add: belowSentinel_def operation_defs scenario_defs Let_def)

lemma reachable_run:
  "reachable w \<Longrightarrow> list_all admissible operations \<Longrightarrow> reachable (run operations w)"
  by (induction operations arbitrary: w) (simp_all add: reachable.step)

section \<open>What an operation leaves in the state\<close>

lemma loadTrack_state:
  "state (loadTrack s track shouldPlay env w) =
     (state w)\<lparr>currentTrack :=
                  Some (if truthy (preview_url track) then track
                        else (case resolution env of
                                Rejected \<Rightarrow> track
                              | Resolved u \<Rightarrow> track\<lparr>preview_url := u\<rparr>)),
               isPlaying := shouldPlay, progress := 0\<rparr>"
  by (simp add: loadTrack_def setState_def audioDo_def startSimulation_def stopSimulation_def
      clearInterval_def Let_def split: option.split Resolution.split)

lemma goToIndex_state_valid:
  "0 \<le> i \<Longrightarrow> i < int (length (queue s)) \<Longrightarrow>
   state (goToIndex s (Some i) True env w) =
     (state w)\<lparr>currentIndex := i,
               currentTrack :=
                  Some (if truthy (preview_url (queue s ! nat i)) then queue s ! nat i
                        else (case resolution env of
                                Rejected \<Rightarrow> queue s ! nat i
                              | Resolved u \<Rightarrow> (queue s ! nat i)\<lparr>preview_url := u\<rparr>)),
               isPlaying := True, progress := 0\<rparr>"
  by (simp add: goToIndex_def loadTrack_state setState_def Let_def)

lemma goToIndex_stop:
  "i = None \<or> the i < 0 \<or> int (length (queue s)) \<le> the i \<Longrightarrow>
   goToIndex s i autoPlay env w =
     (audioDo [AudioPause] w)\<lparr>state := (state w)\<lparr>isPlaying := False, progress := 0\<rparr>\<rparr>"
  by (auto simp add: goToIndex_def setState_def audioDo_def)

lemma findIndex_absent: "(\<forall>x\<in>set xs. \<not> P x) \<Longrightarrow> findIndex P xs = - 1"
  by (induction xs) (simp_all add: Let_def)

section \<open>Clearing the queue\<close>

text \<open>
  C8. In every state \<open>clearQueue\<close> leaves an empty queue, no selection (index \<open>-1\<close>, no
  current track), playback off and progress 0, and keeps the volume, the shuffle flag, the
  repeat mode and the two presentation flags.
\<close>

theorem clearQueue_frame:
  "queue (state (clearQueue w)) = [] \<and>
   currentIndex (state (clearQueue w)) = - 1 \<and>
   currentTrack (state (clearQueue w)) = None \<and>
   isPlaying (state (clearQueue w)) = False \<and>
   progress (state (clearQueue w)) = 0 \<and>
   volume (state (clearQueue w)) = volume (state w) \<and>
   isShuffled (state (clearQueue w)) = isShuffled (state w) \<and>
   repeatMode (state (clearQueue w)) = repeatMode (state w) \<and>
   isMinimized (state (clearQueue w)) = isMinimized (state w) \<and>
   isQueueOpen (state (clearQueue w)) = isQueueOpen (state w)"
  by (simp add: clearQueue_def setState_def audioDo_def clearInterval_def Let_def
      split: option.split)

section \<open>Removing an id that is not queued\<close>

text \<open>
  C10. When no queue entry has the id \<open>trackId\<close>, \<open>removeFromQueue trackId\<close> returns the
  hook as it was: the whole state, the commands issued to the audio element and the
  timers.
\<close>

theorem removeFromQueue_absent:
  assumes "\<forall>t\<in>set (queue (state w)). track_id t \<noteq> trackId"
  shows "removeFromQueue trackId env w = w"
proof -
  have "findIndex (\<lambda>t. track_id t = trackId) (queue (state w)) = - 1"
    using assms by (intro findIndex_absent) simp
  then show ?thesis
    by (simp add: removeFromQueue_def Let_def)
qed

theorem removeFromQueue_absent_witness:
  "queue (state twoTracks) = [trackA, trackB] \<and>
   track_id trackA \<noteq> ''c'' \<and> track_id trackB \<noteq> ''c'' \<and>
   removeFromQueue ''c'' quiet twoTracks = twoTracks"
proof -
  have q: "queue (state twoTracks) = [trackA, trackB]"
    and a: "track_id trackA \<noteq> ''c''" and b: "track_id trackB \<noteq> ''c''"
    by (simp_all add: twoTracks_state trackA_def trackB_def)
  then have h: "\<forall>t\<in>set (queue (state twoTracks)). track_id t \<noteq> ''c''"
    by simp
  from removeFromQueue_absent [OF h]
  have "removeFromQueue ''c'' quiet twoTracks = twoTracks" .
  with q a b show ?thesis by blast
qed

section \<open>Skipping past the end without repeat\<close>

text \<open>
  C2, as the code has it. With shuffle off, repeat off and the current index at the last
  position of a non-empty queue, \<open>skipNext\<close> pauses the audio element and sets
  \<open>isPlaying\<close> to false and \<open>progress\<close> to 0; the current index and the current track
  stay as they were.
\<close>

theorem skipNext_end_stops:
  assumes "queue (state w) \<noteq> []" and "\<not> isShuffled (state w)"
    and "repeatMode (state w) = RepeatOff"
    and "currentIndex (state w) = int (length (queue (state w))) - 1"
  shows "state (skipNext env w) = (state w)\<lparr>isPlaying := False, progress := 0\<rparr> \<and>
         currentIndex (state (skipNext env w)) = currentIndex (state w) \<and>
         currentTrack (state (skipNext env w)) = currentTrack (state w) \<and>
         audioRef (skipNext env w) = audioRef w @ [AudioPause]"
proof -
  have "skipNext env w = goToIndex (state w) None True env w"
    using assms by (simp add: skipNext_def Let_def)
  then show ?thesis
    by (simp add: goToIndex_stop audioDo_def)
qed

theorem skipNext_end_stops_witness:
  "queue (state twoTracks) \<noteq> [] \<and> \<not> isShuffled (state twoTracks) \<and>
   repeatMode (state twoTracks) = RepeatOff \<and>
   currentIndex (state twoTracks) = int (length (queue (state twoTracks))) - 1 \<and>
   state (skipNext quiet twoTracks) = (state twoTracks)\<lparr>isPlaying := False, progress := 0\<rparr>"
proof -
  have h: "queue (state twoTracks) \<noteq> []" "\<not> isShuffled (state twoTracks)"
    "repeatMode (state twoTracks) = RepeatOff"
    "currentIndex (state twoTracks) = int (length (queue (state twoTracks))) - 1"
    by (simp_all add: twoTracks_state)
  from skipNext_end_stops [OF h, of quiet]
  have "state (skipNext quiet twoTracks) = (state twoTracks)\<lparr>isPlaying := False, progress := 0\<rparr>"
    by (rule conjunct1)
  with h show ?thesis by blast
qed

text \<open>
  Scenario B of the specification: the queue is \<open>[trackA, trackB]\<close>, \<open>trackB\<close> at index 1
  is current, repeat and shuffle are off. After \<open>skipNext\<close> the index is still 1 and the
  current track still \<open>trackB\<close>.
\<close>

theorem skipNext_end_counterexample:
  "queue (state twoTracks) = [trackA, trackB] \<and> currentIndex (state twoTracks) = 1 \<and>
   \<not> isShuffled (state twoTracks) \<and> repeatMode (state twoTracks) = RepeatOff \<and>
   currentIndex (state (skipNext quiet twoTracks)) \<noteq> - 1 \<and>
   currentTrack (state (skipNext quiet twoTracks)) \<noteq> None"
  by (simp add: twoTracks_state skipNext_def goToIndex_def setState_def audioDo_def Let_def)

section \<open>Wrapping around with repeat all\<close>

text \<open>
  C6. With repeat mode all and shuffle off, on a non-empty queue: \<open>skipNext\<close> at the last
  position selects index 0 and makes the first queue element the current track, and
  \<open>skipPrevious\<close> at index 0 selects the last index. The current track is the queue
  element as \<open>loadTrack\<close> publishes it: the element itself when it carries a preview URL
  or when enrichment fails, and otherwise the element with the resolved URL attached; its
  id is the element's id in each case.
\<close>

theorem repeat_all_wraps:
  assumes "queue (state w) \<noteq> []" and "\<not> isShuffled (state w)"
    and "repeatMode (state w) = RepeatAll"
  shows "(currentIndex (state w) = int (length (queue (state w))) - 1 \<longrightarrow>
            currentIndex (state (skipNext env w)) = 0 \<and>
            map_option track_id (currentTrack (state (skipNext env w)))
              = Some (track_id (queue (state w) ! 0)) \<and>
            currentTrack (state (skipNext env w))
              = Some (if truthy (preview_url (queue (state w) ! 0)) then queue (state w) ! 0
                      else (case resolution env of
                              Rejected \<Rightarrow> queue (state w) ! 0
                            | Resolved u \<Rightarrow> (queue (state w) ! 0)\<lparr>preview_url := u\<rparr>))) \<and>
         (currentIndex (state w) = 0 \<longrightarrow>
            currentIndex (state (skipPrevious env w)) = int (length (queue (state w))) - 1 \<and>
            map_option track_id (currentTrack (state (skipPrevious env w)))
              = Some (track_id (last (queue (state w)))))"
proof -
  have len: "0 < int (length (queue (state w)))"
    using assms(1) by simp
  have next0: "skipNext env w = goToIndex (state w) (Some 0) True env w"
    if "currentIndex (state w) = int (length (queue (state w))) - 1"
    using assms that by (simp add: skipNext_def Let_def)
  have prev0: "skipPrevious env w =
      goToIndex (state w) (Some (int (length (queue (state w))) - 1)) True env w"
    if "currentIndex (state w) = 0"
    using assms that by (simp add: skipPrevious_def Let_def)
  have lastq: "queue (state w) ! nat (int (length (queue (state w))) - 1) = last (queue (state w))"
  proof -
    have "nat (int (length (queue (state w))) - 1) = length (queue (state w)) - 1"
      by arith
    then show ?thesis
      using assms(1) by (simp add: last_conv_nth)
  qed
  show ?thesis
  proof (intro conjI impI)
    assume a: "currentIndex (state w) = int (length (queue (state w))) - 1"
    show "currentIndex (state (skipNext env w)) = 0"
      using len by (simp add: next0 [OF a] goToIndex_state_valid)
    show "map_option track_id (currentTrack (state (skipNext env w)))
              = Some (track_id (queue (state w) ! 0))"
      using len by (simp add: next0 [OF a] goToIndex_state_valid split: Resolution.split)
    show "currentTrack (state (skipNext env w))
              = Some (if truthy (preview_url (queue (state w) ! 0)) then queue (state w) ! 0
                      else (case resolution env of
                              Rejected \<Rightarrow> queue (state w) ! 0
                            | Resolved u \<Rightarrow> (queue (state w) ! 0)\<lparr>preview_url := u\<rparr>))"
      using len by (simp add: next0 [OF a] goToIndex_state_valid split: Resolution.split)
  next
    assume a: "currentIndex (state w) = 0"
    show "currentIndex (state (skipPrevious env w)) = int (length (queue (state w))) - 1"
      using len by (simp add: prev0 [OF a] goToIndex_state_valid)
    show "map_option track_id (currentTrack (state (skipPrevious env w)))
              = Some (track_id (last (queue (state w))))"
      using len by (simp add: prev0 [OF a] goToIndex_state_valid lastq split: Resolution.split)
  qed
qed

theorem repeat_all_wraps_witness:
  "queue (state loopAllLast) \<noteq> [] \<and> \<not> isShuffled (state loopAllLast) \<and>
   repeatMode (state loopAllLast) = RepeatAll \<and>
   currentIndex (state loopAllLast) = int (length (queue (state loopAllLast))) - 1 \<and>
   currentIndex (state (skipNext quiet loopAllLast)) = 0 \<and>
   currentTrack (state (skipNext quiet loopAllLast)) = Some trackA \<and>
   queue (state loopAllFirst) \<noteq> [] \<and> \<not> isShuffled (state loopAllFirst) \<and>
   repeatMode (state loopAllFirst) = RepeatAll \<and>
   currentIndex (state loopAllFirst) = 0 \<and>
   currentIndex (state (skipPrevious quiet loopAllFirst)) = 1"
  using repeat_all_wraps [of loopAllLast quiet] repeat_all_wraps [of loopAllFirst quiet]
  by (simp add: loopAllLast_state loopAllFirst_state trackA_def truthy_def)

section \<open>Up next\<close>

lemma filter_upt_from: "filter (\<lambda>j. k \<le> j) [0..<n] = [k..<n]"
proof (induction n)
  case 0
  then show ?case by simp
next
  case (Suc n)
  then show ?case by (cases "k \<le> n") (simp_all add: upt_rec [of k "Suc k"] not_less_eq_eq)
qed

lemma suffixAfter_drop:
  assumes "- 1 \<le> i"
  shows "suffixAfter i xs = drop (nat (i + 1)) xs"
proof -
  have "(\<lambda>j. i < int j) = (\<lambda>j. nat (i + 1) \<le> j)"
    using assms by (intro ext) linarith
  then have "suffixAfter i xs = map (\<lambda>j. xs ! j) [nat (i + 1)..<length xs]"
    by (simp add: suffixAfter_def filter_upt_from)
  also have "\<dots> = drop (nat (i + 1)) (map (\<lambda>j. xs ! j) [0..<length xs])"
    by (simp add: drop_map)
  also have "\<dots> = drop (nat (i + 1)) xs"
    by (simp only: map_nth)
  finally show ?thesis .
qed

text \<open>
  C9, as the code has it. In every state whose current index is a position or the sentinel
  \<open>-1\<close>, \<open>upNext\<close> is the part of the queue strictly after the current index, that is
  the queue without its first \<open>currentIndex + 1\<close> elements; with the sentinel it is the
  whole queue. An index below the sentinel, which \<open>setCurrentIndex\<close> can store, makes
  \<open>slice\<close> count from the end: \<open>upNext\<close> is then the last \<open>- (currentIndex + 1)\<close>
  elements of the queue, or the whole queue when it has no more than that many.
\<close>

theorem upNext_suffix:
  "(- 1 \<le> currentIndex s \<longrightarrow>
      upNext s = suffixAfter (currentIndex s) (queue s) \<and>
      upNext s = drop (nat (currentIndex s + 1)) (queue s)) \<and>
   (currentIndex s = - 1 \<longrightarrow> upNext s = queue s) \<and>
   (currentIndex s < - 1 \<longrightarrow>
      upNext s = drop (length (queue s) - nat (- (currentIndex s + 1))) (queue s))"
proof (intro conjI impI)
  assume i: "- 1 \<le> currentIndex s"
  show d: "upNext s = drop (nat (currentIndex s + 1)) (queue s)"
    using i by (auto simp add: upNext_def slice_def relativeStart_def min_def)
  show "upNext s = suffixAfter (currentIndex s) (queue s)"
    using i by (simp add: d suffixAfter_drop)
next
  assume "currentIndex s = - 1"
  then show "upNext s = queue s"
    by (simp add: upNext_def slice_def relativeStart_def)
next
  assume i: "currentIndex s < - 1"
  have "nat (max (int (length (queue s)) + (currentIndex s + 1)) 0)
          = length (queue s) - nat (- (currentIndex s + 1))"
    using i by linarith
  then show "upNext s = drop (length (queue s) - nat (- (currentIndex s + 1))) (queue s)"
    using i by (simp add: upNext_def slice_def relativeStart_def)
qed

theorem upNext_suffix_witness:
  "- 1 \<le> currentIndex (state loopAllFirst) \<and> upNext (state loopAllFirst) = [trackB] \<and>
   currentIndex ((state twoTracks)\<lparr>currentIndex := - 1\<rparr>) = - 1 \<and>
   upNext ((state twoTracks)\<lparr>currentIndex := - 1\<rparr>) = [trackA, trackB] \<and>
   currentIndex (state belowSentinel) < - 1 \<and> upNext (state belowSentinel) = [trackC]"
proof -
  have h1: "- 1 \<le> currentIndex (state loopAllFirst)"
    and h2: "currentIndex ((state twoTracks)\<lparr>currentIndex := - 1\<rparr>) = - 1"
    and h3: "currentIndex (state belowSentinel) < - 1"
    by (simp_all add: loopAllFirst_state belowSentinel_state)
  from upNext_suffix [of "state loopAllFirst"] h1
  have "upNext (state loopAllFirst)
          = drop (nat (currentIndex (state loopAllFirst) + 1)) (queue (state loopAllFirst))"
    by blast
  then have u1: "upNext (state loopAllFirst) = [trackB]"
    by (simp add: loopAllFirst_state)
  from upNext_suffix [of "(state twoTracks)\<lparr>currentIndex := - 1\<rparr>"] h2
  have "upNext ((state twoTracks)\<lparr>currentIndex := - 1\<rparr>)
          = queue ((state twoTracks)\<lparr>currentIndex := - 1\<rparr>)"
    by blast
  then have u2: "upNext ((state twoTracks)\<lparr>currentIndex := - 1\<rparr>) = [trackA, trackB]"
    by (simp add: twoTracks_state)
  from upNext_suffix [of "state belowSentinel"] h3
  have "upNext (state belowSentinel)
          = drop (length (queue (state belowSentinel))
                    - nat (- (currentIndex (state belowSentinel) + 1)))
              (queue (state belowSentinel))"
    by blast
  then have u3: "upNext (state belowSentinel) = [trackC]"
    by (simp add: belowSentinel_state)
  from h1 u1 h2 u2 h3 u3 show ?thesis by blast
qed

text \<open>
  Three tracks are enqueued and \<open>setCurrentIndex\<close> is called with \<open>-2\<close>. Every position
  of the queue lies strictly after \<open>-2\<close>, so the part of the queue after the current
  index is the whole queue; \<open>upNext\<close> is \<open>slice (- 1)\<close> of the queue, its last element
  alone.
\<close>

theorem upNext_suffix_counterexample:
  "reachable belowSentinel \<and>
   queue (state belowSentinel) = [trackA, trackB, trackC] \<and>
   currentIndex (state belowSentinel) = - 2 \<and>
   suffixAfter (currentIndex (state belowSentinel)) (queue (state belowSentinel))
     = [trackA, trackB, trackC] \<and>
   upNext (state belowSentinel) = [trackC] \<and>
   upNext (state belowSentinel)
     \<noteq> suffixAfter (currentIndex (state belowSentinel)) (queue (state belowSentinel))"
proof -
  have r: "reachable belowSentinel"
    unfolding belowSentinel_def by (rule reachable_run [OF reachable.initial]) simp
  have positions: "[0..<length [trackA, trackB, trackC]] = [0, 1, 2]"
    by (simp add: upt_rec)
  have s: "suffixAfter (- 2) [trackA, trackB, trackC] = [trackA, trackB, trackC]"
    unfolding suffixAfter_def positions by simp
  have u: "upNext (state belowSentinel) = [trackC]"
    by (simp add: belowSentinel_state upNext_def slice_def relativeStart_def)
  from r s u show ?thesis
    by (simp add: belowSentinel_state)
qed

section \<open>The synthetic progress clock\<close>

lemma startSimulation_fresh:
  "intervals (startSimulation w) (nextHandle w) = Some 0"
  "simulationInterval (startSimulation w) = Some (nextHandle w)"
  "state (startSimulation w) = state w"
  by (simp_all add: startSimulation_def)

lemma tick_running:
  assumes "intervals w h = Some c" and "c + 1 < 100"
  shows "state (tick h w) = (state w)\<lparr>progress := real (c + 1)\<rparr>"
    and "intervals (tick h w) h = Some (c + 1)"
    and "simulationInterval (tick h w) = simulationInterval w"
  using assms by (simp_all add: tick_def setState_def Let_def)

lemma tick_last:
  assumes "intervals w h = Some 99" and "simulationInterval w = Some h"
  shows "state (tick h w) = (state w)\<lparr>isPlaying := False, progress := 0\<rparr>"
    and "intervals (tick h w) h = None"
    and "simulationInterval (tick h w) = None"
  using assms by (simp_all add: tick_def setState_def stopSimulation_def clearInterval_def Let_def)

lemma ticks_running:
  assumes "intervals w h = Some 0" and "n < 100"
  shows "state ((tick h ^^ n) w) = (if n = 0 then state w else (state w)\<lparr>progress := real n\<rparr>)
         \<and> intervals ((tick h ^^ n) w) h = Some n
         \<and> simulationInterval ((tick h ^^ n) w) = simulationInterval w"
  using assms(2)
proof (induction n)
  case 0
  then show ?case using assms(1) by simp
next
  case (Suc n)
  then have n1: "n + 1 < 100"
    and IH: "state ((tick h ^^ n) w) = (if n = 0 then state w else (state w)\<lparr>progress := real n\<rparr>)"
      "intervals ((tick h ^^ n) w) h = Some n"
      "simulationInterval ((tick h ^^ n) w) = simulationInterval w"
    by simp_all
  show ?case
    using tick_running [OF IH(2) n1] IH by simp
qed

lemma ticks_hundred:
  assumes "intervals w h = Some 0" and "simulationInterval w = Some h"
  shows "state ((tick h ^^ 100) w) = (state w)\<lparr>isPlaying := False, progress := 0\<rparr>"
    and "intervals ((tick h ^^ 100) w) h = None"
    and "simulationInterval ((tick h ^^ 100) w) = None"
proof -
  have split: "(tick h ^^ 100) w = tick h ((tick h ^^ 99) w)"
    by (simp add: numeral_eq_Suc)
  have before: "state ((tick h ^^ 99) w) = (state w)\<lparr>progress := 99\<rparr>"
    "intervals ((tick h ^^ 99) w) h = Some 99"
    "simulationInterval ((tick h ^^ 99) w) = Some h"
    using ticks_running [OF assms(1), of 99] assms(2) by simp_all
  show "state ((tick h ^^ 100) w) = (state w)\<lparr>isPlaying := False, progress := 0\<rparr>"
    and "intervals ((tick h ^^ 100) w) h = None"
    and "simulationInterval ((tick h ^^ 100) w) = None"
    using tick_last [OF before(2) before(3)] before(1) by (simp_all add: split)
qed

text \<open>
  C4, as the code has it. A synthetic clock that has just been started (its interval \<open>h\<close>
  is live with the counter at 0 and the ref holds \<open>h\<close>) publishes \<open>n\<close> as progress after
  \<open>n\<close> ticks for every \<open>n\<close> from 1 to 99, one more on each tick, and leaves \<open>isPlaying\<close>
  and itself alone; the 100th tick clears the interval, empties the ref and sets
  \<open>isPlaying\<close> to false and \<open>progress\<close> to 0. \<open>startSimulation\<close> starts such a clock.
\<close>

theorem synthetic_clock:
  assumes "intervals w h = Some 0" and "simulationInterval w = Some h"
  shows "(\<forall>n. 0 < n \<and> n < 100 \<longrightarrow>
            progress (state ((tick h ^^ n) w)) = real n \<and>
            isPlaying (state ((tick h ^^ n) w)) = isPlaying (state w) \<and>
            simulationInterval ((tick h ^^ n) w) = Some h \<and>
            intervals ((tick h ^^ n) w) h = Some n) \<and>
         progress (state ((tick h ^^ 100) w)) = 0 \<and>
         isPlaying (state ((tick h ^^ 100) w)) = False \<and>
         simulationInterval ((tick h ^^ 100) w) = None \<and>
         intervals ((tick h ^^ 100) w) h = None \<and>
         intervals (startSimulation w) (nextHandle w) = Some 0 \<and>
         simulationInterval (startSimulation w) = Some (nextHandle w)"
proof -
  have "progress (state ((tick h ^^ n) w)) = real n \<and>
        isPlaying (state ((tick h ^^ n) w)) = isPlaying (state w) \<and>
        simulationInterval ((tick h ^^ n) w) = Some h \<and>
        intervals ((tick h ^^ n) w) h = Some n"
    if "0 < n \<and> n < 100" for n
    using ticks_running [OF assms(1), of n] that assms(2) by simp
  then show ?thesis
    using ticks_hundred [OF assms] by (simp add: startSimulation_fresh)
qed

theorem synthetic_clock_witness:
  "intervals playingSynthetic 1 = Some 0 \<and> simulationInterval playingSynthetic = Some 1 \<and>
   progress (state ((tick 1 ^^ 99) playingSynthetic)) = 99 \<and>
   isPlaying (state ((tick 1 ^^ 99) playingSynthetic)) = True \<and>
   progress (state ((tick 1 ^^ 100) playingSynthetic)) = 0 \<and>
   isPlaying (state ((tick 1 ^^ 100) playingSynthetic)) = False \<and>
   simulationInterval ((tick 1 ^^ 100) playingSynthetic) = None"
proof -
  note h = playingSynthetic_clock(2) playingSynthetic_clock(1)
  note clock = synthetic_clock [OF h]
  from clock have "0 < (99::nat) \<and> (99::nat) < 100 \<longrightarrow>
      progress (state ((tick 1 ^^ 99) playingSynthetic)) = real 99 \<and>
      isPlaying (state ((tick 1 ^^ 99) playingSynthetic)) = isPlaying (state playingSynthetic)"
    by blast
  then have a: "progress (state ((tick 1 ^^ 99) playingSynthetic)) = 99"
    "isPlaying (state ((tick 1 ^^ 99) playingSynthetic)) = True"
    by (simp_all add: playingSynthetic_state)
  from clock have b: "progress (state ((tick 1 ^^ 100) playingSynthetic)) = 0"
    "isPlaying (state ((tick 1 ^^ 100) playingSynthetic)) = False"
    "simulationInterval ((tick 1 ^^ 100) playingSynthetic) = None"
    by blast+
  from h a b show ?thesis by blast
qed

text \<open>
  Scenario F of the specification at its 25 ticks: a track without a preview URL is
  played, enrichment fails and the synthetic clock starts. After 25 ticks the progress is
  25, the player is still playing and the clock is still running.
\<close>

theorem synthetic_clock_counterexample:
  "progress (state ((tick 1 ^^ 25) playingSynthetic)) = 25 \<and>
   progress (state ((tick 1 ^^ 25) playingSynthetic)) \<noteq> 0 \<and>
   isPlaying (state ((tick 1 ^^ 25) playingSynthetic)) = True \<and>
   simulationInterval ((tick 1 ^^ 25) playingSynthetic) = Some 1 \<and>
   intervals ((tick 1 ^^ 25) playingSynthetic) 1 = Some 25"
  using ticks_running [OF playingSynthetic_clock(2), of 25]
  by (simp add: playingSynthetic_state playingSynthetic_clock(1))

section \<open>Reordering the queue\<close>

lemma take_one_drop: "k < length xs \<Longrightarrow> take (Suc 0) (drop k xs) = [xs ! k]"
  by (simp add: take_Suc_conv_app_nth)

lemma splice_remove_one:
  "0 \<le> i \<Longrightarrow> i < int (length xs) \<Longrightarrow>
   splice_js i (Suc 0) [] xs = ([xs ! nat i], removeAt (nat i) xs)"
  by (auto simp add: splice_js_def relativeStart_def removeAt_def Let_def min_def take_one_drop)

lemma splice_insert:
  "0 \<le> i \<Longrightarrow> i \<le> int (length xs) \<Longrightarrow>
   snd (splice_js i 0 ys xs) = take (nat i) xs @ ys @ drop (nat i) xs"
  by (auto simp add: splice_js_def relativeStart_def Let_def min_def)

lemma length_removeAt: "k < length xs \<Longrightarrow> length (removeAt k xs) = length xs - 1"
  by (auto simp add: removeAt_def)

lemma nth_removeAt:
  "k < length xs \<Longrightarrow> j < length xs - 1 \<Longrightarrow>
   removeAt k xs ! j = (if j < k then xs ! j else xs ! Suc j)"
  by (auto simp add: removeAt_def nth_append min_def)

lemma nth_insert:
  "t \<le> length xs \<Longrightarrow> j \<le> length xs \<Longrightarrow>
   (take t xs @ [x] @ drop t xs) ! j
     = (if j < t then xs ! j else if j = t then x else xs ! (j - 1))"
  by (auto simp add: nth_append min_def nth_Cons')

lemma removeAt_insert:
  "t \<le> length xs \<Longrightarrow> removeAt t (take t xs @ x # drop t xs) = xs"
  by (simp add: removeAt_def min_def)

lemma reorderQueue_noop:
  assumes "from = to \<or> from < 0 \<or> to < 0 \<or> int (length (queue (state w))) \<le> from
           \<or> int (length (queue (state w))) \<le> to"
  shows "reorderQueue from to w = w"
  using assms by (auto simp add: reorderQueue_def setState_def)

lemma reorderQueue_queue:
  assumes "from \<noteq> to" "0 \<le> from" "0 \<le> to"
    "from < int (length (queue (state w)))" "to < int (length (queue (state w)))"
  shows "queue (state (reorderQueue from to w)) =
           take (nat to) (removeAt (nat from) (queue (state w))) @ [queue (state w) ! nat from]
           @ drop (nat to) (removeAt (nat from) (queue (state w)))"
proof -
  have "to \<le> int (length (removeAt (nat from) (queue (state w))))"
    using assms by (simp add: length_removeAt)
  then show ?thesis
    using assms by (simp add: reorderQueue_def setState_def splice_remove_one splice_insert Let_def)
qed

lemma length_reorderQueue:
  "length (queue (state (reorderQueue from to w))) = length (queue (state w))"
proof (cases "from = to \<or> from < 0 \<or> to < 0 \<or> int (length (queue (state w))) \<le> from
           \<or> int (length (queue (state w))) \<le> to")
  case True
  then show ?thesis by (simp add: reorderQueue_noop)
next
  case False
  then have v: "from \<noteq> to" "0 \<le> from" "0 \<le> to"
    "from < int (length (queue (state w)))" "to < int (length (queue (state w)))"
    by simp_all
  then have "nat to \<le> length (removeAt (nat from) (queue (state w)))"
    by (simp add: length_removeAt)
  then show ?thesis
    using v by (simp add: reorderQueue_queue [OF v] length_removeAt)
qed

lemma reorderQueue_state:
  assumes "from \<noteq> to" "0 \<le> from" "0 \<le> to"
    "from < int (length (queue (state w)))" "to < int (length (queue (state w)))"
  shows "state (reorderQueue from to w) =
           (state w)\<lparr>queue := queue (state (reorderQueue from to w)),
                      currentIndex :=
                        (if from = currentIndex (state w) then to
                         else if from < currentIndex (state w) \<and> currentIndex (state w) \<le> to
                         then currentIndex (state w) - 1
                         else if currentIndex (state w) < from \<and> to \<le> currentIndex (state w)
                         then currentIndex (state w) + 1
                         else currentIndex (state w))\<rparr>"
  using assms by (simp add: reorderQueue_def setState_def Let_def split: prod.split)

lemma reorderQueue_frame:
  "state (reorderQueue from to w) =
     (state w)\<lparr>queue := queue (state (reorderQueue from to w)),
                currentIndex := currentIndex (state (reorderQueue from to w))\<rparr>"
  by (simp add: reorderQueue_def setState_def Let_def split: prod.split)

lemma reorderQueue_keeps_current:
  assumes "from \<noteq> to" "0 \<le> from" "0 \<le> to"
    "from < int (length (queue (state w)))" "to < int (length (queue (state w)))"
    "0 \<le> currentIndex (state w)" "currentIndex (state w) < int (length (queue (state w)))"
  shows "queue (state (reorderQueue from to w)) ! nat (currentIndex (state (reorderQueue from to w)))
         = queue (state w) ! nat (currentIndex (state w))"
proof -
  define q where "q = queue (state w)"
  define f where "f = nat from"
  define t where "t = nat to"
  define c where "c = nat (currentIndex (state w))"
  have b: "f < length q" "t < length q" "c < length q" "f \<noteq> t"
    using assms by (auto simp add: q_def f_def t_def c_def)
  have lr: "length (removeAt f q) = length q - 1"
    using b by (simp add: length_removeAt)
  have q': "queue (state (reorderQueue from to w))
              = take t (removeAt f q) @ [q ! f] @ drop t (removeAt f q)"
    using reorderQueue_queue [OF assms(1-5)] by (simp add: q_def f_def t_def)
  have c': "nat (currentIndex (state (reorderQueue from to w))) =
      (if f = c then t else if f < c \<and> c \<le> t then c - 1
       else if c < f \<and> t \<le> c then c + 1 else c)"
    using assms by (subst reorderQueue_state [OF assms(1-5)]) (auto simp add: f_def t_def c_def)
  have "(take t (removeAt f q) @ [q ! f] @ drop t (removeAt f q)) !
        (if f = c then t else if f < c \<and> c \<le> t then c - 1
         else if c < f \<and> t \<le> c then c + 1 else c)
        = q ! c"
    using b lr by (subst nth_insert) (auto simp add: nth_removeAt)
  then show ?thesis
    by (simp add: q' c' q_def [symmetric] c_def [symmetric])
qed

text \<open>
  C5. \<open>reorderQueue from to\<close> returns the hook as it was when the indices are equal,
  negative or out of bounds. Otherwise the new queue has the old length, holds the element
  that was at \<open>from\<close> at position \<open>to\<close>, and is the old queue apart from that one
  element (without it both queues are the same list); the current index becomes \<open>to\<close>
  when it was \<open>from\<close>, goes down by one when the element moved from before it to at or
  after it, up by one when the element moved from after it to at or before it, and stays
  otherwise, so that it still points at the element it pointed at; nothing else in the
  state changes. On \<open>[a, b, c]\<close> with current index 1, \<open>reorderQueue 0 2\<close> gives
  \<open>[b, c, a]\<close> with current index 0.
\<close>

theorem reorderQueue_relocates:
  "(from = to \<or> from < 0 \<or> to < 0 \<or> int (length (queue (state w))) \<le> from
      \<or> int (length (queue (state w))) \<le> to
    \<longrightarrow> reorderQueue from to w = w) \<and>
   (from \<noteq> to \<and> 0 \<le> from \<and> 0 \<le> to \<and> from < int (length (queue (state w)))
      \<and> to < int (length (queue (state w)))
    \<longrightarrow> length (queue (state (reorderQueue from to w))) = length (queue (state w)) \<and>
        queue (state (reorderQueue from to w)) ! nat to = queue (state w) ! nat from \<and>
        removeAt (nat to) (queue (state (reorderQueue from to w)))
          = removeAt (nat from) (queue (state w)) \<and>
        (from = currentIndex (state w)
           \<longrightarrow> currentIndex (state (reorderQueue from to w)) = to) \<and>
        (from < currentIndex (state w) \<and> currentIndex (state w) \<le> to
           \<longrightarrow> currentIndex (state (reorderQueue from to w)) = currentIndex (state w) - 1) \<and>
        (currentIndex (state w) < from \<and> to \<le> currentIndex (state w)
           \<longrightarrow> currentIndex (state (reorderQueue from to w)) = currentIndex (state w) + 1) \<and>
        (from \<noteq> currentIndex (state w)
           \<and> \<not> (from < currentIndex (state w) \<and> currentIndex (state w) \<le> to)
           \<and> \<not> (currentIndex (state w) < from \<and> to \<le> currentIndex (state w))
           \<longrightarrow> currentIndex (state (reorderQueue from to w)) = currentIndex (state w)) \<and>
        (0 \<le> currentIndex (state w) \<and> currentIndex (state w) < int (length (queue (state w)))
           \<longrightarrow> queue (state (reorderQueue from to w))
                 ! nat (currentIndex (state (reorderQueue from to w)))
               = queue (state w) ! nat (currentIndex (state w))) \<and>
        state (reorderQueue from to w) =
          (state w)\<lparr>queue := queue (state (reorderQueue from to w)),
                     currentIndex := currentIndex (state (reorderQueue from to w))\<rparr>) \<and>
   (queue (state w) = [a, b, c] \<and> currentIndex (state w) = 1
    \<longrightarrow> queue (state (reorderQueue 0 2 w)) = [b, c, a] \<and>
        currentIndex (state (reorderQueue 0 2 w)) = 0)"
proof (intro conjI impI)
  assume "from = to \<or> from < 0 \<or> to < 0 \<or> int (length (queue (state w))) \<le> from
      \<or> int (length (queue (state w))) \<le> to"
  then show "reorderQueue from to w = w"
    by (rule reorderQueue_noop)
next
  assume "queue (state w) = [a, b, c] \<and> currentIndex (state w) = 1"
  then show "queue (state (reorderQueue 0 2 w)) = [b, c, a]"
    and "currentIndex (state (reorderQueue 0 2 w)) = 0"
    by (simp_all add: reorderQueue_def setState_def splice_js_def relativeStart_def Let_def)
next
  assume v: "from \<noteq> to \<and> 0 \<le> from \<and> 0 \<le> to \<and> from < int (length (queue (state w)))
      \<and> to < int (length (queue (state w)))"
  then have v': "from \<noteq> to" "0 \<le> from" "0 \<le> to"
    "from < int (length (queue (state w)))" "to < int (length (queue (state w)))"
    by simp_all
  note q' = reorderQueue_queue [OF v']
  note s' = reorderQueue_state [OF v']
  have lr: "length (removeAt (nat from) (queue (state w))) = length (queue (state w)) - 1"
    and tl: "nat to \<le> length (removeAt (nat from) (queue (state w)))"
    using v' by (simp_all add: length_removeAt)
  show "length (queue (state (reorderQueue from to w))) = length (queue (state w))"
    by (rule length_reorderQueue)
  show "queue (state (reorderQueue from to w)) ! nat to = queue (state w) ! nat from"
    using tl by (simp add: q' nth_append)
  show "removeAt (nat to) (queue (state (reorderQueue from to w)))
          = removeAt (nat from) (queue (state w))"
    using tl by (simp add: q' removeAt_insert)
  show "currentIndex (state (reorderQueue from to w)) = to"
    if "from = currentIndex (state w)"
    using that by (subst s') simp
  show "currentIndex (state (reorderQueue from to w)) = currentIndex (state w) - 1"
    if "from < currentIndex (state w) \<and> currentIndex (state w) \<le> to"
    using that by (subst s') simp
  show "currentIndex (state (reorderQueue from to w)) = currentIndex (state w) + 1"
    if "currentIndex (state w) < from \<and> to \<le> currentIndex (state w)"
    using that by (subst s') simp
  show "currentIndex (state (reorderQueue from to w)) = currentIndex (state w)"
    if "from \<noteq> currentIndex (state w)
           \<and> \<not> (from < currentIndex (state w) \<and> currentIndex (state w) \<le> to)
           \<and> \<not> (currentIndex (state w) < from \<and> to \<le> currentIndex (state w))"
    using that by (subst s') auto
  show "queue (state (reorderQueue from to w))
                 ! nat (currentIndex (state (reorderQueue from to w)))
               = queue (state w) ! nat (currentIndex (state w))"
    if "0 \<le> currentIndex (state w) \<and> currentIndex (state w) < int (length (queue (state w)))"
    using that reorderQueue_keeps_current [OF v'] by simp
  show "state (reorderQueue from to w) =
          (state w)\<lparr>queue := queue (state (reorderQueue from to w)),
                     currentIndex := currentIndex (state (reorderQueue from to w))\<rparr>"
    by (rule reorderQueue_frame)
qed

theorem reorderQueue_relocates_witness:
  "queue (state threeTracks) = [trackA, trackB, trackC] \<and> currentIndex (state threeTracks) = 1 \<and>
   queue (state (reorderQueue 0 2 threeTracks)) = [trackB, trackC, trackA] \<and>
   currentIndex (state (reorderQueue 0 2 threeTracks)) = 0 \<and>
   reorderQueue 2 2 threeTracks = threeTracks \<and>
   reorderQueue 0 3 threeTracks = threeTracks \<and>
   queue (state (reorderQueue 2 0 threeTracks)) ! 0 = trackC \<and>
   currentIndex (state (reorderQueue 2 0 threeTracks)) = 2"
proof -
  have h: "queue (state threeTracks) = [trackA, trackB, trackC]"
    "currentIndex (state threeTracks) = 1"
    by (simp_all add: threeTracks_state)
  from reorderQueue_relocates [of 0 2 threeTracks trackA trackB trackC] h
  have a: "queue (state (reorderQueue 0 2 threeTracks)) = [trackB, trackC, trackA]"
    "currentIndex (state (reorderQueue 0 2 threeTracks)) = 0"
    by blast+
  from reorderQueue_relocates [of 2 2 threeTracks]
  have b: "reorderQueue 2 2 threeTracks = threeTracks"
    by blast
  from reorderQueue_relocates [of 0 3 threeTracks] h
  have c: "reorderQueue 0 3 threeTracks = threeTracks"
    by simp
  from reorderQueue_relocates [of 2 0 threeTracks] h
  have d: "queue (state (reorderQueue 2 0 threeTracks)) ! 0 = trackC"
    "currentIndex (state (reorderQueue 2 0 threeTracks)) = 2"
    by simp_all
  from h a b c d show ?thesis by blast
qed

section \<open>Removing a song that is queued more than once\<close>

lemma queue_loadTrack: "queue (state (loadTrack s track shouldPlay env w)) = queue (state w)"
  by (simp add: loadTrack_state)

lemma findIndex_ge: "- 1 \<le> findIndex P xs"
  by (induction xs) (simp_all add: Let_def)

lemma findIndex_found: "findIndex P xs \<noteq> - 1 \<longleftrightarrow> (\<exists>x\<in>set xs. P x)"
proof (induction xs)
  case Nil
  then show ?case by simp
next
  case (Cons x xs)
  have "findIndex P xs + 1 \<noteq> - 1"
    using findIndex_ge [of P xs] by linarith
  with Cons show ?case by (auto simp add: Let_def)
qed

lemma removeFromQueue_queue:
  "queue (state (removeFromQueue trackId env w))
     = filter (\<lambda>t. track_id t \<noteq> trackId) (queue (state w))"
proof (cases "findIndex (\<lambda>t. track_id t = trackId) (queue (state w)) = - 1")
  case True
  then have "\<forall>t\<in>set (queue (state w)). track_id t \<noteq> trackId"
    using findIndex_found [of "\<lambda>t. track_id t = trackId" "queue (state w)"] by blast
  then have "filter (\<lambda>t. track_id t \<noteq> trackId) (queue (state w)) = queue (state w)"
    by simp
  then show ?thesis
    using True by (simp add: removeFromQueue_def Let_def)
next
  case False
  show ?thesis
    unfolding removeFromQueue_def Let_def split_def
    by (simp only: False if_False)
       (simp add: queue_loadTrack setState_def audioDo_def split: option.split del: if_split)
qed

text \<open>
  C3 at a queue that holds the same song twice: \<open>[trackA, trackB, trackA2]\<close>, where
  \<open>trackA\<close> and \<open>trackA2\<close> have the id \<open>''a''\<close>, with \<open>trackB\<close> current. Removing
  \<open>''a''\<close> leaves \<open>[trackB]\<close>: the later entry \<open>trackA2\<close> is gone too.
\<close>

theorem removeFromQueue_duplicates:
  "queue (state repeatedSong) = [trackA, trackB, trackA2] \<and>
   track_id trackA = ''a'' \<and> track_id trackA2 = ''a'' \<and>
   queue (state (removeFromQueue ''a'' quiet repeatedSong)) = [trackB] \<and>
   queue (state (removeFromQueue ''a'' quiet repeatedSong)) \<noteq> [trackB, trackA2]"
  by (simp add: removeFromQueue_queue repeatedSong_state trackA_def trackB_def trackA2_def)

lemma repeatedSongLast_value:
  "repeatedSongLast =
     \<lparr>state = \<lparr>currentTrack = Some trackA2, currentIndex = 2,
                queue = [trackA, trackB, trackA2], isPlaying = True, progress = 0,
                volume = 80, isShuffled = False, repeatMode = RepeatOff,
                isMinimized = False, isQueueOpen = False\<rparr>,
      audioRef = [AudioSrc ''u3'', AudioVolume (4 / 5), AudioPlay],
      simulationInterval = None, intervals = Map.empty, nextHandle = 1\<rparr>"
  by (simp add: repeatedSongLast_def operation_defs scenario_defs Let_def)

lemma findIndex_first_entry:
  "findIndex (\<lambda>t. track_id t = ''a'') [trackA, trackB, trackA2] = 0"
  by (simp add: trackA_def)

text \<open>
  C1 at the same queue with the second entry of the song current (index 2), a state that
  enqueueing three tracks and selecting the third produces. Removing \<open>''a''\<close> finds the
  first entry at index 0, before the current index, and moves the current index down by
  one, to 1; the filter has removed both entries, the queue is \<open>[trackB]\<close>, and nothing is
  at index 1: the current track is none while the current index is neither \<open>-1\<close> nor
  inside the queue.
\<close>

theorem selection_broken_by_duplicate:
  "state repeatedSongLast =
     \<lparr>currentTrack = Some trackA2, currentIndex = 2, queue = [trackA, trackB, trackA2],
      isPlaying = True, progress = 0, volume = 80, isShuffled = False,
      repeatMode = RepeatOff, isMinimized = False, isQueueOpen = False\<rparr> \<and>
   currentIndex (state (exec (RemoveFromQueue ''a'' quiet) repeatedSongLast)) = 1 \<and>
   currentTrack (state (exec (RemoveFromQueue ''a'' quiet) repeatedSongLast)) = None \<and>
   queue (state (exec (RemoveFromQueue ''a'' quiet) repeatedSongLast)) = [trackB]"
  by (simp add: repeatedSongLast_value removeFromQueue_def findIndex_first_entry Let_def
      elementAt_def setState_def audioDo_def trackA_def trackB_def trackA2_def)

section \<open>Progress\<close>





lemma togglePlay_state:
  "state (togglePlay w) = state w
   \<or> state (togglePlay w) = (state w)\<lparr>isPlaying := \<not> isPlaying (state w)\<rparr>"
  by (simp add: togglePlay_def setState_def audioDo_def stopSimulation_def startSimulation_def
      clearInterval_def Let_def split: option.split)



lemma reorderQueue_playback:
  "currentTrack (state (reorderQueue from to w)) = currentTrack (state w)"
  "progress (state (reorderQueue from to w)) = progress (state w)"
  by (simp_all add: reorderQueue_def setState_def Let_def split: prod.split)


lemma plain_state:
  "state (setVolume v w) = (state w)\<lparr>volume := v\<rparr>"
  "state (toggleShuffle w) = (state w)\<lparr>isShuffled := \<not> isShuffled (state w)\<rparr>"
  "state (toggleFavorite w) = state w"
  "state (toggleMinimize w) = (state w)\<lparr>isMinimized := \<not> isMinimized (state w)\<rparr>"
  "state (openQueuePanel w) = (state w)\<lparr>isQueueOpen := True\<rparr>"
  "state (closeQueuePanel w) = (state w)\<lparr>isQueueOpen := False\<rparr>"
  "state (toggleQueuePanel w) = (state w)\<lparr>isQueueOpen := \<not> isQueueOpen (state w)\<rparr>"
  "state (setQueue q w) = (state w)\<lparr>queue := q\<rparr>"
  "state (setCurrentIndex idx w) = (state w)\<lparr>currentIndex := idx\<rparr>"
  "state (closePlayer w) = initialState"
  "state (clearQueue w) =
     (state w)\<lparr>queue := [], currentIndex := - 1, currentTrack := None, isPlaying := False,
               progress := 0\<rparr>"
  "state (seek position duration w) = (state w)\<lparr>progress := position\<rparr>"
  "state (handleError w) = (state w)\<lparr>isPlaying := False\<rparr>"
  by (simp_all add: handleError_def setVolume_def toggleShuffle_def toggleFavorite_def toggleMinimize_def
      openQueuePanel_def closeQueuePanel_def toggleQueuePanel_def setQueue_def
      setCurrentIndex_def closePlayer_def clearQueue_def seek_def setState_def audioDo_def
      clearInterval_def Let_def split: option.split)







section \<open>The selection stays consistent in every other case\<close>

text \<open>
  Every operation other than the removal of an id that several queue entries share keeps
  the selection invariant.
\<close>

lemma track_id_published [simp]: "track_id (published env track) = track_id track"
  by (simp add: published_def split: Resolution.split)

lemma loadTrack_published:
  "state (loadTrack s track shouldPlay env w) =
     (state w)\<lparr>currentTrack := Some (published env track), isPlaying := shouldPlay,
               progress := 0\<rparr>"
  by (simp add: loadTrack_state published_def)

lemma wellSelected_playback:
  "wellSelected (s\<lparr>isPlaying := p\<rparr>) = wellSelected s"
  "wellSelected (s\<lparr>progress := x\<rparr>) = wellSelected s"
  "wellSelected (s\<lparr>isPlaying := p, progress := x\<rparr>) = wellSelected s"
  "wellSelected (s\<lparr>volume := v\<rparr>) = wellSelected s"
  "wellSelected (s\<lparr>isShuffled := b\<rparr>) = wellSelected s"
  "wellSelected (s\<lparr>repeatMode := m\<rparr>) = wellSelected s"
  "wellSelected (s\<lparr>isMinimized := b\<rparr>) = wellSelected s"
  "wellSelected (s\<lparr>isQueueOpen := b\<rparr>) = wellSelected s"
  by (simp_all add: wellSelected_def selectionConsistent_def)

lemma wellSelected_select:
  assumes "0 \<le> i" "i < int (length q)" "track_id t = track_id (q ! nat i)"
  shows "wellSelected (s\<lparr>queue := q, currentIndex := i, currentTrack := Some t\<rparr>)"
  using assms by (simp add: wellSelected_def selectionConsistent_def)

lemma wellSelected_goToIndex:
  assumes "wellSelected (state w)"
  shows "wellSelected (state (goToIndex (state w) i True env w))"
proof (cases "i = None \<or> the i < 0 \<or> int (length (queue (state w))) \<le> the i")
  case True
  then show ?thesis
    using assms by (simp add: goToIndex_stop wellSelected_playback)
next
  case False
  then obtain k where k: "i = Some k" "0 \<le> k" "k < int (length (queue (state w)))"
    by (cases i) auto
  have "state (goToIndex (state w) (Some k) True env w) =
          (state w)\<lparr>queue := queue (state w), currentIndex := k,
            currentTrack := Some (published env (queue (state w) ! nat k)),
            isPlaying := True, progress := 0\<rparr>"
    using k by (simp add: goToIndex_state_valid published_def)
  moreover have "wellSelected ((state w)\<lparr>queue := queue (state w), currentIndex := k,
            currentTrack := Some (published env (queue (state w) ! nat k))\<rparr>)"
    using k by (intro wellSelected_select) simp_all
  ultimately show ?thesis
    using k(1) by (simp add: wellSelected_def selectionConsistent_def)
qed

lemma wellSelected_skipNext:
  "wellSelected (state w) \<Longrightarrow> wellSelected (state (skipNext env w))"
  by (simp add: skipNext_def wellSelected_goToIndex Let_def)

lemma wellSelected_skipPrevious:
  "wellSelected (state w) \<Longrightarrow> wellSelected (state (skipPrevious env w))"
  by (simp add: skipPrevious_def wellSelected_goToIndex Let_def)

lemma wellSelected_togglePlay:
  "wellSelected (state w) \<Longrightarrow> wellSelected (state (togglePlay w))"
  using togglePlay_state [of w] by (auto simp add: wellSelected_playback)

lemma wellSelected_playTrack:
  assumes "wellSelected (state w)"
  shows "wellSelected (state (playTrack track env w))"
proof (cases "map_option track_id (currentTrack (state w)) = Some (track_id track)")
  case True
  then show ?thesis
    using assms by (simp add: playTrack_def wellSelected_togglePlay Let_def)
next
  case False
  have "playTrack track env w =
      loadTrack (state w) track True env
        (setState (\<lambda>prev. prev\<lparr>queue := [track], currentIndex := 0,
                                currentTrack := Some track, isPlaying := True,
                                progress := 0\<rparr>) w)"
    unfolding playTrack_def Let_def by (simp only: False if_False)
  then show ?thesis
    by (simp add: loadTrack_published setState_def wellSelected_def selectionConsistent_def)
qed

lemma wellSelected_enqueue:
  assumes "wellSelected (state w)"
  shows "wellSelected (state (enqueue track w))"
  using assms
  by (cases "currentTrack (state w)")
     (auto simp add: enqueue_def setState_def wellSelected_def selectionConsistent_def Let_def
       nth_append)

lemma wellSelected_enqueueNext:
  assumes "wellSelected (state w)"
  shows "wellSelected (state (enqueueNext track w))"
proof (cases "currentIndex (state w) = - 1")
  case True
  then show ?thesis
    by (simp add: enqueueNext_def setState_def wellSelected_def selectionConsistent_def)
next
  case False
  then have r: "0 \<le> currentIndex (state w)" "currentIndex (state w) < int (length (queue (state w)))"
    using assms by (simp_all add: wellSelected_def selectionConsistent_def)
  then have "snd (splice_js (currentIndex (state w) + 1) 0 [track] (queue (state w)))
      = take (nat (currentIndex (state w) + 1)) (queue (state w)) @ [track]
        @ drop (nat (currentIndex (state w) + 1)) (queue (state w))"
    by (intro splice_insert) simp_all
  then show ?thesis
    using False r assms
    by (auto simp add: enqueueNext_def setState_def wellSelected_def selectionConsistent_def
        nth_append min_def)
qed

lemma wellSelected_tick:
  "wellSelected (state w) \<Longrightarrow> wellSelected (state (tick h w))"
  by (simp add: tick_def setState_def stopSimulation_def clearInterval_def Let_def
      wellSelected_def selectionConsistent_def split: option.split)

lemma wellSelected_reorderQueue:
  assumes "wellSelected (state w)"
  shows "wellSelected (state (reorderQueue from to w))"
proof (cases "from = to \<or> from < 0 \<or> to < 0 \<or> int (length (queue (state w))) \<le> from
           \<or> int (length (queue (state w))) \<le> to")
  case True
  then show ?thesis
    using assms by (simp add: reorderQueue_noop)
next
  case False
  then have v: "from \<noteq> to" "0 \<le> from" "0 \<le> to"
    "from < int (length (queue (state w)))" "to < int (length (queue (state w)))"
    by simp_all
  then have "queue (state w) \<noteq> []" by auto
  then have c: "0 \<le> currentIndex (state w)"
    "currentIndex (state w) < int (length (queue (state w)))"
    "map_option track_id (currentTrack (state w))
       = Some (track_id (queue (state w) ! nat (currentIndex (state w))))"
    using assms by (auto simp add: wellSelected_def selectionConsistent_def)
  have len: "length (queue (state (reorderQueue from to w))) = length (queue (state w))"
    by (rule length_reorderQueue)
  have keep: "queue (state (reorderQueue from to w))
                 ! nat (currentIndex (state (reorderQueue from to w)))
               = queue (state w) ! nat (currentIndex (state w))"
    using reorderQueue_keeps_current [OF v c(1,2)] .
  have idx: "0 \<le> currentIndex (state (reorderQueue from to w))"
    "currentIndex (state (reorderQueue from to w)) < int (length (queue (state w)))"
    using v c(1,2) by (subst reorderQueue_state [OF v], simp)+
  have trk: "currentTrack (state (reorderQueue from to w)) = currentTrack (state w)"
    by (rule reorderQueue_playback)
  show ?thesis
    using len keep idx trk c(3) by (auto simp add: wellSelected_def selectionConsistent_def)
qed

lemma findIndex_position:
  "findIndex P xs \<noteq> - 1 \<Longrightarrow>
   0 \<le> findIndex P xs \<and> findIndex P xs < int (length xs) \<and> P (xs ! nat (findIndex P xs))"
proof (induction xs)
  case Nil
  then show ?case by simp
next
  case (Cons x xs)
  show ?case
  proof (cases "P x")
    case True
    then show ?thesis by simp
  next
    case False
    with Cons.prems have f: "findIndex P xs \<noteq> - 1"
      by (simp add: Let_def split: if_splits)
    with Cons.IH have "0 \<le> findIndex P xs" "findIndex P xs < int (length xs)"
      "P (xs ! nat (findIndex P xs))"
      by simp_all
    then show ?thesis
      using False f by (simp add: Let_def nat_add_distrib)
  qed
qed

lemma filter_single:
  "length (filter P xs) \<le> 1 \<Longrightarrow> findIndex P xs \<noteq> - 1 \<Longrightarrow>
   filter (\<lambda>x. \<not> P x) xs = removeAt (nat (findIndex P xs)) xs"
proof (induction xs)
  case Nil
  then show ?case by simp
next
  case (Cons x xs)
  show ?case
  proof (cases "P x")
    case True
    with Cons.prems(1) have "filter P xs = []" by simp
    then have "filter (\<lambda>x. \<not> P x) xs = xs"
      by (simp add: filter_empty_conv)
    then show ?thesis
      using True by (simp add: removeAt_def)
  next
    case False
    with Cons.prems have f: "findIndex P xs \<noteq> - 1" and l: "length (filter P xs) \<le> 1"
      by (simp_all add: Let_def split: if_splits)
    from findIndex_position [OF f] have "0 \<le> findIndex P xs" by simp
    then have "nat (findIndex P xs + 1) = Suc (nat (findIndex P xs))"
      by simp
    then show ?thesis
      using False f Cons.IH [OF l f] by (simp add: Let_def removeAt_def)
  qed
qed

lemma removeFromQueue_state:
  assumes found: "findIndex (\<lambda>t. track_id t = trackId) (queue (state w)) \<noteq> - 1"
    and p: "p =
      (if findIndex (\<lambda>t. track_id t = trackId) (queue (state w)) = currentIndex (state w)
       then (if length (filter (\<lambda>t. track_id t \<noteq> trackId) (queue (state w))) = 0
             then (- 1, None)
             else if currentIndex (state w)
                     \<ge> int (length (filter (\<lambda>t. track_id t \<noteq> trackId) (queue (state w))))
             then (int (length (filter (\<lambda>t. track_id t \<noteq> trackId) (queue (state w)))) - 1,
                   elementAt (filter (\<lambda>t. track_id t \<noteq> trackId) (queue (state w)))
                     (int (length (filter (\<lambda>t. track_id t \<noteq> trackId) (queue (state w)))) - 1))
             else (currentIndex (state w),
                   elementAt (filter (\<lambda>t. track_id t \<noteq> trackId) (queue (state w)))
                     (currentIndex (state w))))
       else if findIndex (\<lambda>t. track_id t = trackId) (queue (state w)) < currentIndex (state w)
       then (max (currentIndex (state w) - 1) 0,
             elementAt (filter (\<lambda>t. track_id t \<noteq> trackId) (queue (state w)))
               (max (currentIndex (state w) - 1) 0))
       else (currentIndex (state w), currentTrack (state w)))"
  shows "state (removeFromQueue trackId env w) =
     (case snd p of
        None \<Rightarrow>
          (state w)\<lparr>queue := filter (\<lambda>t. track_id t \<noteq> trackId) (queue (state w)),
                    currentIndex := fst p, currentTrack := None, isPlaying := False,
                    progress := 0\<rparr>
      | Some t \<Rightarrow>
          (state w)\<lparr>queue := filter (\<lambda>t. track_id t \<noteq> trackId) (queue (state w)),
                    currentIndex := fst p, currentTrack := Some (published env t),
                    isPlaying := isPlaying (state w), progress := 0\<rparr>)"
  unfolding removeFromQueue_def Let_def split_def
  by (simp only: found if_False p [symmetric])
     (simp add: loadTrack_published setState_def audioDo_def split: option.split)

lemma wellSelectedI:
  assumes "0 \<le> currentIndex s" "currentIndex s < int (length (queue s))"
    "map_option track_id (currentTrack s) = Some (track_id (queue s ! nat (currentIndex s)))"
  shows "wellSelected s"
  using assms by (auto simp add: wellSelected_def selectionConsistent_def)

lemma wellSelected_removeFromQueue:
  assumes inv: "wellSelected (state w)"
    and single: "length (filter (\<lambda>t. track_id t = trackId) (queue (state w))) \<le> 1"
  shows "wellSelected (state (removeFromQueue trackId env w))"
proof (cases "findIndex (\<lambda>t. track_id t = trackId) (queue (state w)) = - 1")
  case True
  then show ?thesis
    using inv by (simp add: removeFromQueue_def Let_def)
next
  case found: False
  define q where "q = queue (state w)"
  define k where "k = findIndex (\<lambda>t. track_id t = trackId) q"
  define c where "c = currentIndex (state w)"
  define q' where "q' = filter (\<lambda>t. track_id t \<noteq> trackId) q"
  have k: "0 \<le> k" "k < int (length q)"
    using findIndex_position [OF found] by (simp_all add: k_def q_def)
  have q'_removeAt: "q' = removeAt (nat k) q"
    using filter_single [of "\<lambda>t. track_id t = trackId" q] single found
    by (simp add: q'_def k_def q_def)
  have len': "int (length q') = int (length q) - 1"
    using k by (simp add: q'_removeAt length_removeAt)
  have "q \<noteq> []" using k by auto
  then have c: "0 \<le> c" "c < int (length q)"
    and t0: "map_option track_id (currentTrack (state w)) = Some (track_id (q ! nat c))"
    using inv by (auto simp add: wellSelected_def selectionConsistent_def q_def c_def)
  obtain t0 where cur: "currentTrack (state w) = Some t0" "track_id t0 = track_id (q ! nat c)"
    using t0 by auto
  define p where "p =
      (if k = c
       then (if length q' = 0 then (- 1, None)
             else if c \<ge> int (length q')
             then (int (length q') - 1, elementAt q' (int (length q') - 1))
             else (c, elementAt q' c))
       else if k < c
       then (max (c - 1) 0, elementAt q' (max (c - 1) 0))
       else (c, currentTrack (state w)))"
  note st = removeFromQueue_state [OF found, of p env,
      unfolded q_def [symmetric] k_def [symmetric] c_def [symmetric] q'_def [symmetric],
      OF p_def]
  consider (gone) "k = c" "length q' = 0"
    | (last) "k = c" "length q' \<noteq> 0" "c \<ge> int (length q')"
    | (same) "k = c" "length q' \<noteq> 0" "c < int (length q')"
    | (before) "k < c"
    | (after) "c < k"
    by linarith
  then show ?thesis
  proof cases
    case gone
    then have "p = (- 1, None)" by (simp add: p_def)
    then show ?thesis
      using gone by (simp add: st wellSelected_def selectionConsistent_def)
  next
    case last
    then have "p = (int (length q') - 1, Some (q' ! nat (int (length q') - 1)))"
      by (simp add: p_def elementAt_def)
    then show ?thesis
      using last by (intro wellSelectedI) (simp_all add: st)
  next
    case same
    then have "p = (c, Some (q' ! nat c))"
      using c by (simp add: p_def elementAt_def)
    then show ?thesis
      using same c by (intro wellSelectedI) (simp_all add: st)
  next
    case before
    then have "p = (c - 1, Some (q' ! nat (c - 1)))"
      using k c len' by (simp add: p_def elementAt_def)
    then show ?thesis
      using before k c len' by (intro wellSelectedI) (simp_all add: st)
  next
    case after
    then have p: "p = (c, Some t0)"
      by (simp add: p_def cur)
    have "q' ! nat c = q ! nat c"
      using after k c by (simp add: q'_removeAt nth_removeAt)
    then show ?thesis
      using after k c len' cur by (intro wellSelectedI) (simp_all add: st p)
  qed
qed

lemma wellSelected_exec:
  assumes "wellSelected (state w)" and "orderly operation w"
  shows "wellSelected (state (exec operation w))"
proof (cases operation)
  case (PlayTrack track env)
  then show ?thesis using assms(1) by (simp add: wellSelected_playTrack)
next
  case (Enqueue track)
  then show ?thesis using assms(1) by (simp add: wellSelected_enqueue)
next
  case (EnqueueNext track)
  then show ?thesis using assms(1) by (simp add: wellSelected_enqueueNext)
next
  case TogglePlay
  then show ?thesis using assms(1) by (simp add: wellSelected_togglePlay)
next
  case (SkipNext env)
  then show ?thesis using assms(1) by (simp add: wellSelected_skipNext)
next
  case (SkipPrevious env)
  then show ?thesis using assms(1) by (simp add: wellSelected_skipPrevious)
next
  case ToggleRepeat
  then show ?thesis using assms(1) by (simp add: toggleRepeat_state wellSelected_playback)
next
  case ClearQueue
  then show ?thesis by (simp add: plain_state wellSelected_def selectionConsistent_def)
next
  case (RemoveFromQueue trackId env)
  then show ?thesis using assms by (simp add: wellSelected_removeFromQueue)
next
  case (ReorderQueue "from" to)
  then show ?thesis using assms(1) by (simp add: wellSelected_reorderQueue)
next
  case ClosePlayer
  then show ?thesis
    by (simp add: plain_state initialState_def wellSelected_def selectionConsistent_def)
next
  case (PlayFromQueue index env)
  then show ?thesis using assms(1) by (simp add: playFromQueue_def wellSelected_goToIndex)
next
  case (SetQueue q)
  then show ?thesis using assms(2) by simp
next
  case (SetCurrentIndex idx)
  then show ?thesis using assms(2) by simp
next
  case (Tick h)
  then show ?thesis using assms(1) by (simp add: wellSelected_tick)
next
  case (Ended env)
  then show ?thesis using assms(1) by (simp add: handleEnded_def wellSelected_skipNext)
qed (use assms(1) in \<open>simp_all add: plain_state wellSelected_playback\<close>)

lemma reachableOrderly_wellSelected: "reachableOrderly w \<Longrightarrow> wellSelected (state w)"
proof (induction rule: reachableOrderly.induct)
  case orderly_start
  show ?case
    by (simp add: initialPlayer_def initialState_def wellSelected_def selectionConsistent_def)
next
  case (orderly_step w operation)
  then show ?case by (simp add: wellSelected_exec)
qed

lemma selection_consistent_otherwise:
  assumes "reachableOrderly w"
  shows "(currentIndex (state w) = - 1 \<longleftrightarrow> currentTrack (state w) = None) \<and>
         (currentIndex (state w) \<noteq> - 1 \<longrightarrow>
            0 \<le> currentIndex (state w) \<and>
            currentIndex (state w) < int (length (queue (state w))) \<and>
            map_option track_id (currentTrack (state w))
              = Some (track_id (queue (state w) ! nat (currentIndex (state w)))))"
  using reachableOrderly_wellSelected [OF assms]
  by (simp add: wellSelected_def selectionConsistent_def)

section \<open>The current index never falls below the sentinel\<close>

lemma index_floor_goToIndex:
  "- 1 \<le> currentIndex (state w) \<Longrightarrow> - 1 \<le> currentIndex (state (goToIndex s i True env w))"
proof (cases "i = None \<or> the i < 0 \<or> int (length (queue s)) \<le> the i")
  case True
  assume "- 1 \<le> currentIndex (state w)"
  with True show ?thesis by (simp add: goToIndex_stop)
next
  case False
  then obtain k where "i = Some k" "0 \<le> k" "k < int (length (queue s))"
    by (cases i) auto
  then show ?thesis by (simp add: goToIndex_state_valid)
qed

lemma index_floor_removeFromQueue:
  assumes "- 1 \<le> currentIndex (state w)"
  shows "- 1 \<le> currentIndex (state (removeFromQueue trackId env w))"
proof (cases "findIndex (\<lambda>t. track_id t = trackId) (queue (state w)) = - 1")
  case True
  then show ?thesis using assms by (simp add: removeFromQueue_def Let_def)
next
  case False
  note st = removeFromQueue_state [OF False refl, of env]
  show ?thesis
    using assms by (subst st) (auto split: option.split if_splits)
qed

lemma index_floor_reorderQueue:
  assumes "- 1 \<le> currentIndex (state w)"
  shows "- 1 \<le> currentIndex (state (reorderQueue from to w))"
proof (cases "from = to \<or> from < 0 \<or> to < 0 \<or> int (length (queue (state w))) \<le> from
           \<or> int (length (queue (state w))) \<le> to")
  case True
  then show ?thesis using assms by (simp add: reorderQueue_noop)
next
  case False
  then have v: "from \<noteq> to" "0 \<le> from" "0 \<le> to"
    "from < int (length (queue (state w)))" "to < int (length (queue (state w)))"
    by simp_all
  show ?thesis
    using assms v by (subst reorderQueue_state [OF v]) simp
qed

lemma index_floor_exec:
  assumes "- 1 \<le> currentIndex (state w)" and "\<forall>idx. operation = SetCurrentIndex idx \<longrightarrow> - 1 \<le> idx"
  shows "- 1 \<le> currentIndex (state (exec operation w))"
proof (cases operation)
  case (PlayTrack track env)
  then show ?thesis
    using assms(1) togglePlay_state [of w]
    by (auto simp add: playTrack_def loadTrack_state setState_def Let_def)
next
  case (Enqueue track)
  then show ?thesis using assms(1) by (simp add: enqueue_def setState_def Let_def)
next
  case (EnqueueNext track)
  then show ?thesis using assms(1) by (simp add: enqueueNext_def setState_def)
next
  case TogglePlay
  then show ?thesis using assms(1) togglePlay_state [of w] by auto
next
  case (SkipNext env)
  then show ?thesis using assms(1) by (simp add: skipNext_def index_floor_goToIndex Let_def)
next
  case (SkipPrevious env)
  then show ?thesis using assms(1) by (simp add: skipPrevious_def index_floor_goToIndex Let_def)
next
  case ToggleRepeat
  then show ?thesis using assms(1) by (simp add: toggleRepeat_state)
next
  case (RemoveFromQueue trackId env)
  then show ?thesis using assms(1) by (simp add: index_floor_removeFromQueue)
next
  case (ReorderQueue "from" to)
  then show ?thesis using assms(1) by (simp add: index_floor_reorderQueue)
next
  case (PlayFromQueue index env)
  then show ?thesis using assms(1) by (simp add: playFromQueue_def index_floor_goToIndex)
next
  case (SetCurrentIndex idx)
  then show ?thesis using assms(2) by (simp add: plain_state)
next
  case (Tick h)
  then show ?thesis
    using assms(1)
    by (simp add: tick_def setState_def stopSimulation_def clearInterval_def Let_def
        split: option.split)
next
  case (Ended env)
  then show ?thesis
    using assms(1) by (simp add: handleEnded_def skipNext_def index_floor_goToIndex Let_def)
qed (use assms(1) in \<open>simp_all add: plain_state initialState_def\<close>)

lemma index_floor_run:
  assumes "- 1 \<le> currentIndex (state w)"
    and "\<forall>idx. SetCurrentIndex idx \<in> set operations \<longrightarrow> - 1 \<le> idx"
  shows "- 1 \<le> currentIndex (state (run operations w))"
  using assms
proof (induction operations arbitrary: w)
  case Nil
  then show ?case by simp
next
  case (Cons operation operations)
  from Cons.prems have "- 1 \<le> currentIndex (state (exec operation w))"
    by (intro index_floor_exec) auto
  with Cons show ?case by simp
qed

lemma upNext_after_run:
  assumes "\<forall>idx. SetCurrentIndex idx \<in> set operations \<longrightarrow> - 1 \<le> idx"
  shows "upNext (state (run operations initialPlayer))
           = drop (nat (currentIndex (state (run operations initialPlayer)) + 1))
               (queue (state (run operations initialPlayer)))"
proof -
  have "- 1 \<le> currentIndex (state (run operations initialPlayer))"
    using assms by (intro index_floor_run) (simp_all add: initialPlayer_def initialState_def)
  then show ?thesis
    by (auto simp add: upNext_def slice_def relativeStart_def min_def)
qed

end
